theory Spec2Isabelle
  imports Main
begin

section \<open>Strings, characters and errors\<close>

text \<open>
  A Python \<open>str\<close> is a sequence of Unicode code points. A code point is a natural
  number and a string a list of them; \<open>ustr\<close> reads an ASCII literal.
\<close>

type_synonym cp = nat
type_synonym ustring = "cp list"

definition ustr :: "string \<Rightarrow> ustring" where
  "ustr s = map of_char s"

text \<open>The exceptions the transcriber can raise. A failing computation is \<open>Inl e\<close>.\<close>

datatype py_error = IndexError | KeyError | AttributeError | EOFError

text \<open>
  The Unicode character database that CPython's \<open>str\<close> methods and the \<open>re\<close> module
  consult. It is a parameter of every definition below, so that a theorem stated for
  all \<open>U\<close> holds for the tables of any Python version.
  \<^item> \<open>isalnum\<close>, \<open>isspace\<close>, \<open>isupper\<close>, \<open>islower\<close>, \<open>istitle\<close>: the predicates of one
    code point (\<open>Py_UNICODE_ISALNUM\<close> and so on);
  \<^item> \<open>iscased\<close>, \<open>iscaseignorable\<close>: the properties Cased and Case_Ignorable, read by
    \<open>str.lower\<close> for the final sigma;
  \<^item> \<open>toupper_full\<close>, \<open>tolower_full\<close>, \<open>totitle_full\<close>: the full case mappings of
    \<open>str.upper\<close>, \<open>str.lower\<close>, \<open>str.capitalize\<close> (one code point may become several);
  \<^item> \<open>tolower\<close>, \<open>toupper\<close>: the simple case mappings the \<open>re\<close> engine uses;
  \<^item> \<open>casefix\<close>: the table of extra case equivalences of the \<open>re\<close> compiler, the
    empty list for a code point that is not in it.
\<close>

record ucd =
  isalnum :: "cp \<Rightarrow> bool"
  isspace :: "cp \<Rightarrow> bool"
  isupper :: "cp \<Rightarrow> bool"
  islower :: "cp \<Rightarrow> bool"
  istitle :: "cp \<Rightarrow> bool"
  iscased :: "cp \<Rightarrow> bool"
  iscaseignorable :: "cp \<Rightarrow> bool"
  toupper_full :: "cp \<Rightarrow> ustring"
  tolower_full :: "cp \<Rightarrow> ustring"
  totitle_full :: "cp \<Rightarrow> ustring"
  tolower :: "cp \<Rightarrow> cp"
  toupper :: "cp \<Rightarrow> cp"
  casefix :: "cp \<Rightarrow> cp list"

subsection \<open>The methods of \<open>str\<close>\<close>

text \<open>\<open>str.isupper\<close>: no lowercase or titlecase character and at least one uppercase
  one; a string of one character is read directly.\<close>

definition str_isupper :: "ucd \<Rightarrow> ustring \<Rightarrow> bool" where
  "str_isupper U s =
     (case s of
        [] \<Rightarrow> False
      | [c] \<Rightarrow> isupper U c
      | _ \<Rightarrow> \<not> list_ex (\<lambda>c. islower U c \<or> istitle U c) s \<and> list_ex (isupper U) s)"

text \<open>\<open>str.istitle\<close>: uppercase and titlecase characters only after uncased ones,
  lowercase characters only after cased ones, and at least one cased character.\<close>

fun istitle_loop :: "ucd \<Rightarrow> bool \<Rightarrow> bool \<Rightarrow> ustring \<Rightarrow> bool" where
  "istitle_loop U previous_is_cased cased [] = cased"
| "istitle_loop U previous_is_cased cased (c # cs) =
     (if isupper U c \<or> istitle U c then
        (if previous_is_cased then False else istitle_loop U True True cs)
      else if islower U c then
        (if \<not> previous_is_cased then False else istitle_loop U True True cs)
      else istitle_loop U False cased cs)"

definition str_istitle :: "ucd \<Rightarrow> ustring \<Rightarrow> bool" where
  "str_istitle U s =
     (case s of
        [c] \<Rightarrow> isupper U c \<or> istitle U c
      | _ \<Rightarrow> istitle_loop U False False s)"

definition str_upper :: "ucd \<Rightarrow> ustring \<Rightarrow> ustring" where
  "str_upper U s = concat (map (toupper_full U) s)"

text \<open>
  \<open>str.lower\<close> maps every character by the full lowercase mapping, except the capital
  sigma U+03A3, which becomes the final sigma U+03C2 when a cased character precedes
  it (case-ignorable ones skipped) and none follows it, and U+03C3 otherwise.
\<close>

definition final_sigma :: "ucd \<Rightarrow> ustring \<Rightarrow> nat \<Rightarrow> bool" where
  "final_sigma U s i =
     (case dropWhile (iscaseignorable U) (rev (take i s)) of
        [] \<Rightarrow> False
      | b # _ \<Rightarrow> iscased U b \<and>
          (case dropWhile (iscaseignorable U) (drop (Suc i) s) of
             [] \<Rightarrow> True
           | a # _ \<Rightarrow> \<not> iscased U a))"

definition lower_at :: "ucd \<Rightarrow> ustring \<Rightarrow> nat \<Rightarrow> ustring" where
  "lower_at U s i =
     (if s ! i = 931 then [if final_sigma U s i then 962 else 963]
      else tolower_full U (s ! i))"

definition str_lower :: "ucd \<Rightarrow> ustring \<Rightarrow> ustring" where
  "str_lower U s = concat (map (lower_at U s) [0..<length s])"

text \<open>\<open>str.capitalize\<close> (Python 3.8 and later): the first character by the full
  titlecase mapping, the rest lowercased as \<open>str.lower\<close> does.\<close>

definition str_capitalize :: "ucd \<Rightarrow> ustring \<Rightarrow> ustring" where
  "str_capitalize U s =
     (case s of
        [] \<Rightarrow> []
      | c # _ \<Rightarrow> totitle_full U c @ concat (map (lower_at U s) [1..<length s]))"

definition str_strip :: "ucd \<Rightarrow> ustring \<Rightarrow> ustring" where
  "str_strip U s = rev (dropWhile (isspace U) (rev (dropWhile (isspace U) s)))"

subsection \<open>Indexing\<close>

text \<open>\<open>xs[i]\<close> and \<open>xs[i] = v\<close>: a negative index counts from the end, an index out of
  range raises IndexError.\<close>

definition py_index :: "'a list \<Rightarrow> int \<Rightarrow> py_error + 'a" where
  "py_index xs i =
     (if 0 \<le> i \<and> i < int (length xs) then Inr (xs ! nat i)
      else if i < 0 \<and> - int (length xs) \<le> i then Inr (xs ! nat (int (length xs) + i))
      else Inl IndexError)"

definition py_store :: "'a list \<Rightarrow> int \<Rightarrow> 'a \<Rightarrow> py_error + 'a list" where
  "py_store xs i v =
     (if 0 \<le> i \<and> i < int (length xs) then Inr (xs[nat i := v])
      else if i < 0 \<and> - int (length xs) \<le> i then Inr (xs[nat (int (length xs) + i) := v])
      else Inl IndexError)"

section \<open>The regular expressions of the transcriber\<close>

text \<open>\<^verbatim>\<open>\w\<close> is an alphanumeric character or the underscore; \<^verbatim>\<open>\s\<close> is \<open>isspace\<close>.\<close>

definition is_word :: "ucd \<Rightarrow> cp \<Rightarrow> bool" where
  "is_word U c \<longleftrightarrow> isalnum U c \<or> c = 95"

text \<open>
  \<^verbatim>\<open>re.findall(r'\w+|[^\w\s]+|\s+', text)\<close>. At every position the first alternative
  that matches the next character takes the longest run of its class.
\<close>

definition token_class :: "ucd \<Rightarrow> cp \<Rightarrow> cp \<Rightarrow> bool" where
  "token_class U c =
     (if is_word U c then is_word U
      else if \<not> isspace U c then (\<lambda>x. \<not> is_word U x \<and> \<not> isspace U x)
      else isspace U)"

function findall_tokens :: "ucd \<Rightarrow> ustring \<Rightarrow> ustring list" where
  "findall_tokens U [] = []"
| "findall_tokens U (c # cs) =
     (c # takeWhile (token_class U c) cs) # findall_tokens U (dropWhile (token_class U c) cs)"
  by pat_completeness auto
termination
  by (relation "measure (\<lambda>(U, s). length s)") (auto simp: less_Suc_eq_le length_dropWhile_le)

text \<open>\<open>split_sentence_into_words\<close>: \<^verbatim>\<open>re.findall(r'\b\w+\b', sentence)\<close>, the maximal
  runs of word characters.\<close>

function split_sentence_into_words :: "ucd \<Rightarrow> ustring \<Rightarrow> ustring list" where
  "split_sentence_into_words U [] = []"
| "split_sentence_into_words U (c # cs) =
     (if is_word U c
      then (c # takeWhile (is_word U) cs) # split_sentence_into_words U (dropWhile (is_word U) cs)
      else split_sentence_into_words U cs)"
  by pat_completeness auto
termination
  by (relation "measure (\<lambda>(U, s). length s)") (auto simp: less_Suc_eq_le length_dropWhile_le)

text \<open>
  A literal of a pattern compiled with \<open>re.IGNORECASE\<close>: an uncased literal matches
  itself only; a cased one matches every character whose simple lowercase is the
  literal's, or one of the extra equivalents of the literal's lowercase.
\<close>

definition ci_match :: "ucd \<Rightarrow> cp \<Rightarrow> cp \<Rightarrow> bool" where
  "ci_match U p t =
     (if p = tolower U p \<and> p = toupper U p then t = p
      else if casefix U (tolower U p) = [] then tolower U t = tolower U p
      else tolower U t \<in> set (tolower U p # casefix U (tolower U p)))"

definition literal_match :: "ucd \<Rightarrow> bool \<Rightarrow> cp \<Rightarrow> cp \<Rightarrow> bool" where
  "literal_match U ignorecase p t = (if ignorecase then ci_match U p t else t = p)"

text \<open>\<^verbatim>\<open>\b\<close> between the character before the position (None at the start) and the one
  after it (None at the end): exactly one of the two is a word character.\<close>

definition is_word_opt :: "ucd \<Rightarrow> cp option \<Rightarrow> bool" where
  "is_word_opt U x = (case x of None \<Rightarrow> False | Some c \<Rightarrow> is_word U c)"

definition at_boundary :: "ucd \<Rightarrow> cp option \<Rightarrow> cp option \<Rightarrow> bool" where
  "at_boundary U before after \<longleftrightarrow> is_word_opt U before \<noteq> is_word_opt U after"

definition head_opt :: "'a list \<Rightarrow> 'a option" where
  "head_opt xs = (case xs of [] \<Rightarrow> None | x # _ \<Rightarrow> Some x)"

text \<open>
  The pattern \<^verbatim>\<open>\bword\b\<close>, every character of \<open>word\<close> a literal, tried at one
  position: \<open>prev\<close> is the character before the position, \<open>rest\<close> the text from it.
\<close>

definition match_here :: "ucd \<Rightarrow> bool \<Rightarrow> ustring \<Rightarrow> cp option \<Rightarrow> ustring \<Rightarrow> bool" where
  "match_here U ignorecase word prev rest \<longleftrightarrow>
     length word \<le> length rest \<and>
     at_boundary U prev (head_opt rest) \<and>
     list_all2 (literal_match U ignorecase) word (take (length word) rest) \<and>
     at_boundary U (if word = [] then prev else Some (last (take (length word) rest)))
       (head_opt (drop (length word) rest))"

text \<open>
  \<^verbatim>\<open>re.sub(r'\bword\b', callback, text)\<close>: the text is scanned from the left; a match
  is replaced by what the callback returns and the scan goes on after it; an empty
  match (the empty word) is followed by a copy of the next character. An exception of
  the callback ends the substitution.
\<close>

function re_sub :: "ucd \<Rightarrow> bool \<Rightarrow> ustring \<Rightarrow> (ustring \<Rightarrow> py_error + ustring) \<Rightarrow>
    cp option \<Rightarrow> ustring \<Rightarrow> py_error + ustring" where
  "re_sub U ignorecase word callback prev rest =
     (if match_here U ignorecase word prev rest then
        (case callback (take (length word) rest) of
           Inl e \<Rightarrow> Inl e
         | Inr r \<Rightarrow>
             (if word = [] then
                (case rest of
                   [] \<Rightarrow> Inr r
                 | c # cs \<Rightarrow>
                     (case re_sub U ignorecase word callback (Some c) cs of
                        Inl e \<Rightarrow> Inl e
                      | Inr out \<Rightarrow> Inr (r @ c # out)))
              else
                (case re_sub U ignorecase word callback
                        (Some (last (take (length word) rest))) (drop (length word) rest) of
                   Inl e \<Rightarrow> Inl e
                 | Inr out \<Rightarrow> Inr (r @ out))))
      else
        (case rest of
           [] \<Rightarrow> Inr []
         | c # cs \<Rightarrow>
             (case re_sub U ignorecase word callback (Some c) cs of
                Inl e \<Rightarrow> Inl e
              | Inr out \<Rightarrow> Inr (c # out))))"
  by pat_completeness auto
termination
  by (relation "measure (\<lambda>(U, i, w, f, p, rest). length rest)")
     (auto simp: match_here_def neq_Nil_conv)

text \<open>\<^verbatim>\<open>re.sub(r'\bword\b', callback, text, count=1)\<close> with the case-sensitive pattern
  of \<open>highlight_selected_word\<close>: only the first match is wrapped.\<close>

fun highlight_scan :: "ucd \<Rightarrow> ustring \<Rightarrow> cp option \<Rightarrow> ustring \<Rightarrow> ustring" where
  "highlight_scan U word prev [] =
     (if match_here U False word prev [] then ustr ''><'' else [])"
| "highlight_scan U word prev (c # cs) =
     (if match_here U False word prev (c # cs)
      then ustr ''>'' @ take (length word) (c # cs) @ ustr ''<'' @ drop (length word) (c # cs)
      else c # highlight_scan U word (Some c) cs)"

definition highlight_selected_word :: "ucd \<Rightarrow> ustring \<Rightarrow> ustring \<Rightarrow> ustring" where
  "highlight_selected_word U sentence selected_word =
     highlight_scan U selected_word None sentence"

section \<open>The dictionary\<close>

text \<open>
  Modelled from the spec: the class \<open>Dictionary\<close> of the module \<open>dictionary\<close>, which the
  transcriber imports. An entry has the field \<open>whole\<close> and the mapping \<open>PI\<close> from a
  variation to a phonetic string or to null (\<open>Some None\<close>); the dictionary maps a
  lowercase word to its entry. \<open>get_entry\<close>, membership and subscription read this map.
\<close>

record entry =
  whole :: ustring
  PI :: "ustring \<rightharpoonup> ustring option"

type_synonym dictionary = "ustring \<rightharpoonup> entry"

text \<open>\<open>entry["PI"].get(variation)\<close>: None for a missing variation and for a null value.\<close>

definition pi_get :: "entry \<Rightarrow> ustring \<Rightarrow> ustring option" where
  "pi_get e variation = (case PI e variation of None \<Rightarrow> None | Some x \<Rightarrow> x)"

section \<open>The transcription pipeline\<close>

subsection \<open>\<open>update_words_for_piss_variation\<close>\<close>

text \<open>The comprehension that builds \<open>replacement_dict\<close> keeps the words whose value
  for the variation is truthy: a string that is not empty.\<close>

definition replacement_dict :: "dictionary \<Rightarrow> ustring \<Rightarrow> (ustring \<rightharpoonup> ustring)" where
  "replacement_dict pi_dictionary variation word =
     (case pi_dictionary word of
        None \<Rightarrow> None
      | Some e \<Rightarrow>
          (case pi_get e variation of
             None \<Rightarrow> None
           | Some replacement \<Rightarrow> if replacement = [] then None else Some replacement))"

definition replace_word :: "ucd \<Rightarrow> (ustring \<rightharpoonup> ustring) \<Rightarrow> ustring \<Rightarrow> py_error + ustring" where
  "replace_word U rd word =
     (case rd (str_lower U word) of
        None \<Rightarrow> Inr word
      | Some replacement \<Rightarrow>
          if str_isupper U word then Inr (str_upper U replacement)
          else
            (case word of
               [] \<Rightarrow> Inl IndexError
             | w0 # _ \<Rightarrow>
                 if isupper U w0 then
                   (case replacement of
                      [] \<Rightarrow> Inl IndexError
                    | r0 # rs \<Rightarrow> Inr (toupper_full U r0 @ rs))
                 else Inr replacement))"

text \<open>A list comprehension over a function that may raise: the first exception ends it.\<close>

fun map_result :: "('a \<Rightarrow> py_error + 'b) \<Rightarrow> 'a list \<Rightarrow> py_error + 'b list" where
  "map_result f [] = Inr []"
| "map_result f (x # xs) =
     (case f x of
        Inl e \<Rightarrow> Inl e
      | Inr y \<Rightarrow> (case map_result f xs of Inl e \<Rightarrow> Inl e | Inr ys \<Rightarrow> Inr (y # ys)))"

definition join_tokens :: "py_error + ustring list \<Rightarrow> py_error + ustring" where
  "join_tokens r = (case r of Inl e \<Rightarrow> Inl e | Inr updated_tokens \<Rightarrow> Inr (concat updated_tokens))"

definition update_token :: "ucd \<Rightarrow> (ustring \<rightharpoonup> ustring) \<Rightarrow> ustring \<Rightarrow> py_error + ustring" where
  "update_token U rd token = (if str_strip U token \<noteq> [] then replace_word U rd token else Inr token)"

definition update_words_for_piss_variation ::
    "ucd \<Rightarrow> ustring \<Rightarrow> dictionary \<Rightarrow> ustring \<Rightarrow> py_error + ustring" where
  "update_words_for_piss_variation U input_text pi_dictionary variation =
     join_tokens (map_result (update_token U (replacement_dict pi_dictionary variation))
       (findall_tokens U input_text))"

subsection \<open>\<open>transform_words_with_s_suffix\<close>\<close>

definition transform_word :: "ucd \<Rightarrow> dictionary \<Rightarrow> ustring \<Rightarrow> ustring \<Rightarrow> py_error + ustring" where
  "transform_word U pi_dictionary variation word =
     (if word = [] then Inl IndexError
      else if last word = 115 \<and> (length word < 2 \<or> word ! (length word - 2) \<noteq> 115) then
        (case pi_dictionary (str_lower U (butlast word)) of
           None \<Rightarrow> Inr word
         | Some e \<Rightarrow>
             (case PI e variation of
                None \<Rightarrow> Inr word
              | Some None \<Rightarrow> Inr word
              | Some (Some replacement) \<Rightarrow>
                  (case butlast word of
                     [] \<Rightarrow> Inl IndexError
                   | b0 # _ \<Rightarrow>
                       Inr ((if isupper U b0 then str_capitalize U replacement else replacement)
                            @ [115]))))
      else Inr word)"

definition transform_token :: "ucd \<Rightarrow> dictionary \<Rightarrow> ustring \<Rightarrow> ustring \<Rightarrow> py_error + ustring" where
  "transform_token U pi_dictionary variation token =
     (if str_strip U token \<noteq> [] then transform_word U pi_dictionary variation token else Inr token)"

definition transform_words_with_s_suffix ::
    "ucd \<Rightarrow> ustring \<Rightarrow> dictionary \<Rightarrow> ustring \<Rightarrow> py_error + ustring" where
  "transform_words_with_s_suffix U input_text pi_dictionary variation =
     join_tokens (map_result (transform_token U pi_dictionary variation)
       (findall_tokens U input_text))"

subsection \<open>\<open>perform_preliminar_replacements\<close>\<close>

text \<open>The fixed mapping, in the order of the source. The marks are the combining
  characters U+032C, U+0308 and U+0323; U+2039 and U+203A are the angle quotes.\<close>

definition preliminar_replacements :: "(ustring \<times> ustring) list" where
  "preliminar_replacements =
     [(ustr ''the'', ustr ''the'' @ [812]),
      (ustr ''a'', ustr ''a'' @ [812]),
      (ustr ''an'', ustr ''a'' @ [812] @ ustr ''n''),
      (ustr ''of'', [8249] @ ustr ''o'' @ [812] @ ustr ''v'' @ [8250]),
      (ustr ''to'', ustr ''to'' @ [812]),
      (ustr ''you'', ustr ''yo'' @ [776] @ ustr ''u''),
      (ustr ''this'', ustr ''this'' @ [803]),
      (ustr ''and'', ustr ''and''),
      (ustr ''for'', ustr ''for''),
      (ustr ''from'', ustr ''fro'' @ [812] @ ustr ''m'')]"

definition replacement_callback :: "ucd \<Rightarrow> ustring \<Rightarrow> py_error + ustring" where
  "replacement_callback U word =
     (case map_of preliminar_replacements (str_lower U word) of
        None \<Rightarrow> Inl KeyError
      | Some replacement \<Rightarrow>
          Inr (if str_istitle U word then str_capitalize U replacement
               else if str_isupper U word then str_upper U replacement
               else replacement))"

fun preliminar_loop :: "ucd \<Rightarrow> ustring list \<Rightarrow> ustring \<Rightarrow> py_error + ustring" where
  "preliminar_loop U [] input_text = Inr input_text"
| "preliminar_loop U (word # keys) input_text =
     (case re_sub U True word (replacement_callback U) None input_text of
        Inl e \<Rightarrow> Inl e
      | Inr text' \<Rightarrow> preliminar_loop U keys text')"

definition perform_preliminar_replacements :: "ucd \<Rightarrow> ustring \<Rightarrow> py_error + ustring" where
  "perform_preliminar_replacements U input_text =
     preliminar_loop U (map fst preliminar_replacements) input_text"

subsection \<open>\<open>transcribe\<close>\<close>

definition transcribe :: "ucd \<Rightarrow> dictionary \<Rightarrow> ustring \<Rightarrow> ustring \<Rightarrow> py_error + ustring" where
  "transcribe U pi_dictionary input_text variation =
     (case perform_preliminar_replacements U input_text of
        Inl e \<Rightarrow> Inl e
      | Inr t1 \<Rightarrow>
          (case update_words_for_piss_variation U t1 pi_dictionary variation of
             Inl e \<Rightarrow> Inl e
           | Inr t2 \<Rightarrow> transform_words_with_s_suffix U t2 pi_dictionary variation))"

section \<open>The interactive review\<close>

subsection \<open>Replacing a word in the sentences\<close>

text \<open>
  The callback \<open>replace\<close> of \<open>replace_word_in_sentence\<close>. The replacement is None when
  the dictionary holds null for the variation: then \<open>upper\<close> and \<open>capitalize\<close> raise
  AttributeError, and a callback that returns None makes \<open>re.sub\<close> append nothing.
\<close>

definition replace :: "ucd \<Rightarrow> ustring option \<Rightarrow> ustring \<Rightarrow> py_error + ustring" where
  "replace U replacement matched_word =
     (if str_isupper U matched_word then
        (case replacement of None \<Rightarrow> Inl AttributeError | Some r \<Rightarrow> Inr (str_upper U r))
      else if str_istitle U matched_word then
        (case replacement of None \<Rightarrow> Inl AttributeError | Some r \<Rightarrow> Inr (str_capitalize U r))
      else
        (case replacement of None \<Rightarrow> Inr [] | Some r \<Rightarrow> Inr r))"

definition replace_word_in_sentence ::
    "ucd \<Rightarrow> ustring \<Rightarrow> ustring \<Rightarrow> ustring option \<Rightarrow> py_error + ustring" where
  "replace_word_in_sentence U sentence word replacement =
     re_sub U True word (replace U replacement) None sentence"

text \<open>
  \<open>replace_word_in_all_sentences\<close> assigns to \<open>sentences[i]\<close> for every index in turn.
  The list is changed in place: when a sentence raises, the sentences before it have
  their new text already. The result is the exception, if any, and the list.
\<close>

fun replace_loop ::
    "ucd \<Rightarrow> ustring \<Rightarrow> ustring option \<Rightarrow> ustring list \<Rightarrow> ustring list \<Rightarrow>
     py_error option \<times> ustring list" where
  "replace_loop U original_word new_word done [] = (None, done)"
| "replace_loop U original_word new_word done (s # todo) =
     (case replace_word_in_sentence U s original_word new_word of
        Inl e \<Rightarrow> (Some e, done @ s # todo)
      | Inr s' \<Rightarrow> replace_loop U original_word new_word (done @ [s']) todo)"

definition replace_word_in_all_sentences ::
    "ucd \<Rightarrow> ustring list \<Rightarrow> ustring \<Rightarrow> ustring option \<Rightarrow> py_error option \<times> ustring list" where
  "replace_word_in_all_sentences U sentences original_word new_word =
     replace_loop U original_word new_word [] sentences"

subsection \<open>The state of the review\<close>

text \<open>
  What the console shows, one constructor for each \<open>print\<close> of the loop. A value that
  an f-string formats may be None.
\<close>

datatype message =
    Display ustring
  | PI_Entry ustring
  | Variation_Word ustring "ustring option"
  | No_PI_Entry
  | Options_Prompt
  | All_Replaced ustring "ustring option"
  | Customize_Prompt "ustring option"
  | Customized ustring "ustring option"
  | Exiting
  | Invalid_Input

text \<open>
  The variables of \<open>process_sentence_interactively\<close>, the dictionary of the transcriber,
  the lines the user will type and the messages printed so far. The two indices are
  Python integers.
\<close>

record review_state =
  sentences :: "ustring list"
  current_sentence_index :: int
  sentence :: ustring
  words :: "ustring list"
  selected_word_index :: int
  pi_dictionary :: dictionary
  stdin :: "ustring list"
  stdout :: "message list"

text \<open>How a piece of the loop body ends: the loop goes on, the function returns, or
  an exception leaves it.\<close>

datatype control = Continue | Return | Raise py_error

definition and_then ::
    "control \<times> review_state \<Rightarrow> (review_state \<Rightarrow> control \<times> review_state) \<Rightarrow>
     control \<times> review_state" where
  "and_then r f = (case r of (Continue, st) \<Rightarrow> f st | (c, st) \<Rightarrow> (c, st))"

definition emit :: "message list \<Rightarrow> review_state \<Rightarrow> control \<times> review_state" where
  "emit ms st = (Continue, st\<lparr>stdout := stdout st @ ms\<rparr>)"

text \<open>
  Modelled from the spec: \<open>edit_entry\<close> of the class \<open>Dictionary\<close> followed by
  \<open>refresh_dictionary\<close>. The editor is interactive: from the dictionary, the word and
  the lines still to be typed it gives the reloaded dictionary and the lines it left.
\<close>

type_synonym editor = "dictionary \<Rightarrow> ustring \<Rightarrow> ustring list \<Rightarrow> dictionary \<times> ustring list"

subsection \<open>The pieces of the loop body\<close>

text \<open>\<open>sentence = sentences[current_sentence_index]\<close> and
  \<open>words = self.split_sentence_into_words(sentence)\<close>.\<close>

definition load_sentence :: "ucd \<Rightarrow> review_state \<Rightarrow> control \<times> review_state" where
  "load_sentence U st =
     (case py_index (sentences st) (current_sentence_index st) of
        Inl e \<Rightarrow> (Raise e, st)
      | Inr s \<Rightarrow> (Continue, st\<lparr>sentence := s, words := split_sentence_into_words U s\<rparr>))"

text \<open>The block that the actions \<open>a\<close> and \<open>n\<close> share: the next word, and the first
  word of the next sentence after the last word of this one.\<close>

definition next_word :: "ucd \<Rightarrow> review_state \<Rightarrow> control \<times> review_state" where
  "next_word U st =
     (let st1 = st\<lparr>selected_word_index := selected_word_index st + 1\<rparr> in
      if selected_word_index st1 \<ge> int (length (words st1)) then
        (let st2 = st1\<lparr>current_sentence_index := current_sentence_index st1 + 1\<rparr> in
         if current_sentence_index st2 < int (length (sentences st2)) then
           and_then (load_sentence U st2)
             (\<lambda>st3. (Continue, st3\<lparr>selected_word_index := 0\<rparr>))
         else (Continue, st2))
      else (Continue, st1))"

definition previous_word :: "ucd \<Rightarrow> review_state \<Rightarrow> control \<times> review_state" where
  "previous_word U st =
     (if selected_word_index st > 0 then
        (Continue, st\<lparr>selected_word_index := selected_word_index st - 1\<rparr>)
      else if current_sentence_index st > 0 then
        and_then (load_sentence U (st\<lparr>current_sentence_index := current_sentence_index st - 1\<rparr>))
          (\<lambda>st1. (Continue, st1\<lparr>selected_word_index := int (length (words st1)) - 1\<rparr>))
      else (Continue, st))"

definition skip_sentence :: "ucd \<Rightarrow> review_state \<Rightarrow> control \<times> review_state" where
  "skip_sentence U st =
     (let st1 = st\<lparr>current_sentence_index := current_sentence_index st + 1\<rparr> in
      if current_sentence_index st1 < int (length (sentences st1)) then
        and_then (load_sentence U st1)
          (\<lambda>st2. (Continue, st2\<lparr>selected_word_index := 0\<rparr>))
      else (Continue, st1))"

definition replace_everywhere ::
    "ucd \<Rightarrow> ustring \<Rightarrow> ustring option \<Rightarrow> review_state \<Rightarrow> control \<times> review_state" where
  "replace_everywhere U selected_word new_word st =
     (case replace_word_in_all_sentences U (sentences st) selected_word new_word of
        (Some e, ss) \<Rightarrow> (Raise e, st\<lparr>sentences := ss\<rparr>)
      | (None, ss) \<Rightarrow> (Continue, st\<lparr>sentences := ss\<rparr>))"

text \<open>\<open>input\<close>: the next line typed, EOFError when there is none.\<close>

definition read_line :: "review_state \<Rightarrow> py_error + ustring \<times> review_state" where
  "read_line st =
     (case stdin st of
        [] \<Rightarrow> Inl EOFError
      | l # ls \<Rightarrow> Inr (l, st\<lparr>stdin := ls\<rparr>))"

text \<open>The action \<open>a\<close>, taken when the entry is truthy.\<close>

definition accept_word ::
    "ucd \<Rightarrow> ustring \<Rightarrow> entry \<Rightarrow> ustring \<Rightarrow> review_state \<Rightarrow> control \<times> review_state" where
  "accept_word U variation pi_entry selected_word st =
     (case PI pi_entry variation of
        None \<Rightarrow> (Raise KeyError, st)
      | Some pi_word \<Rightarrow>
          and_then (and_then (and_then
            (replace_everywhere U selected_word pi_word st)
            (emit [All_Replaced selected_word pi_word]))
            (load_sentence U))
            (next_word U))"

text \<open>The action \<open>c\<close>, taken when the entry is truthy. A blank answer keeps the
  dictionary's form. The word index is incremented and nothing else.\<close>

definition customize_word ::
    "ucd \<Rightarrow> ustring \<Rightarrow> entry \<Rightarrow> ustring \<Rightarrow> review_state \<Rightarrow> control \<times> review_state" where
  "customize_word U variation pi_entry selected_word st =
     (case PI pi_entry variation of
        None \<Rightarrow> (Raise KeyError, st)
      | Some pi_word \<Rightarrow>
          and_then (emit [Customize_Prompt pi_word] st)
            (\<lambda>st1. case read_line st1 of
               Inl e \<Rightarrow> (Raise e, st1)
             | Inr (l, st2) \<Rightarrow>
                 (let custom_word = (if str_strip U l \<noteq> [] then Some (str_strip U l) else pi_word) in
                  and_then (and_then (and_then
                    (replace_everywhere U selected_word custom_word st2)
                    (emit [Customized selected_word custom_word]))
                    (load_sentence U))
                    (\<lambda>st3. (Continue,
                       st3\<lparr>selected_word_index := selected_word_index st3 + 1\<rparr>)))))"

text \<open>The action \<open>e\<close>: the editor, then the reload.\<close>

definition edit_word :: "ucd \<Rightarrow> editor \<Rightarrow> ustring \<Rightarrow> review_state \<Rightarrow> control \<times> review_state" where
  "edit_word U edit_entry selected_word st =
     (case edit_entry (pi_dictionary st) (str_lower U selected_word) (stdin st) of
        (d, ls) \<Rightarrow> (Continue, st\<lparr>pi_dictionary := d, stdin := ls\<rparr>))"

text \<open>The branches on the lowercased answer, in the order of the source.\<close>

definition dispatch ::
    "ucd \<Rightarrow> editor \<Rightarrow> ustring \<Rightarrow> entry option \<Rightarrow> ustring \<Rightarrow> ustring \<Rightarrow> review_state \<Rightarrow>
     control \<times> review_state" where
  "dispatch U edit_entry variation pi_entry selected_word user_action st =
     (if user_action = ustr ''a'' \<and> pi_entry \<noteq> None then
        accept_word U variation (the pi_entry) selected_word st
      else if user_action = ustr ''n'' \<or> user_action = [] then next_word U st
      else if user_action = ustr ''p'' then previous_word U st
      else if user_action = ustr ''e'' then edit_word U edit_entry selected_word st
      else if user_action = ustr ''c'' \<and> pi_entry \<noteq> None then
        customize_word U variation (the pi_entry) selected_word st
      else if user_action = ustr ''s'' then skip_sentence U st
      else if user_action = ustr ''q'' then and_then (emit [Exiting] st) (\<lambda>st1. (Return, st1))
      else emit [Invalid_Input] st)"

text \<open>The display of the dictionary entry. \<open>pi_entry['PI'][variation]\<close> raises KeyError
  when the entry has no value for the variation, after the first line is printed.\<close>

definition show_entry :: "ustring \<Rightarrow> entry option \<Rightarrow> review_state \<Rightarrow> control \<times> review_state" where
  "show_entry variation pi_entry st =
     (case pi_entry of
        None \<Rightarrow> emit [No_PI_Entry] st
      | Some e \<Rightarrow>
          and_then (emit [PI_Entry (whole e)] st)
            (\<lambda>st1. case PI e variation of
               None \<Rightarrow> (Raise KeyError, st1)
             | Some x \<Rightarrow> emit [Variation_Word variation x] st1))"

text \<open>One pass through the body of the inner loop.\<close>

definition review_word :: "ucd \<Rightarrow> editor \<Rightarrow> ustring \<Rightarrow> review_state \<Rightarrow> control \<times> review_state" where
  "review_word U edit_entry variation st =
     (case py_index (words st) (selected_word_index st) of
        Inl e \<Rightarrow> (Raise e, st)
      | Inr selected_word \<Rightarrow>
          (let pi_entry = pi_dictionary st (str_lower U selected_word) in
           and_then (and_then (and_then
             (emit [Display (highlight_selected_word U (sentence st) selected_word)] st)
             (show_entry variation pi_entry))
             (emit [Options_Prompt]))
             (\<lambda>st1. case read_line st1 of
                Inl e \<Rightarrow> (Raise e, st1)
              | Inr (l, st2) \<Rightarrow>
                  dispatch U edit_entry variation pi_entry selected_word (str_lower U l) st2)))"

subsection \<open>The two loops\<close>

text \<open>
  The outer loop can run for ever (a sentence without a word is entered again and
  again), so the loops take fuel, one unit for each test of a loop condition.
\<close>

datatype outcome = Returned | Raised py_error | Out_Of_Fuel

fun sentence_loop :: "nat \<Rightarrow> ucd \<Rightarrow> editor \<Rightarrow> ustring \<Rightarrow> review_state \<Rightarrow> outcome \<times> review_state"
  and word_loop :: "nat \<Rightarrow> ucd \<Rightarrow> editor \<Rightarrow> ustring \<Rightarrow> review_state \<Rightarrow> outcome \<times> review_state"
where
  "sentence_loop 0 U edit_entry variation st = (Out_Of_Fuel, st)"
| "sentence_loop (Suc n) U edit_entry variation st =
     (if current_sentence_index st < int (length (sentences st)) then
        (case load_sentence U st of
           (Continue, st1) \<Rightarrow> word_loop n U edit_entry variation (st1\<lparr>selected_word_index := 0\<rparr>)
         | (Return, st1) \<Rightarrow> (Returned, st1)
         | (Raise e, st1) \<Rightarrow> (Raised e, st1))
      else (Returned, st))"
| "word_loop 0 U edit_entry variation st = (Out_Of_Fuel, st)"
| "word_loop (Suc n) U edit_entry variation st =
     (if selected_word_index st < int (length (words st)) then
        (case review_word U edit_entry variation st of
           (Continue, st1) \<Rightarrow> word_loop n U edit_entry variation st1
         | (Return, st1) \<Rightarrow> (Returned, st1)
         | (Raise e, st1) \<Rightarrow> (Raised e, st1))
      else
        (case py_store (sentences st) (current_sentence_index st) (sentence st) of
           Inl e \<Rightarrow> (Raised e, st)
         | Inr ss \<Rightarrow> sentence_loop n U edit_entry variation (st\<lparr>sentences := ss\<rparr>)))"

definition process_sentence_interactively ::
    "nat \<Rightarrow> ucd \<Rightarrow> editor \<Rightarrow> dictionary \<Rightarrow> ustring list \<Rightarrow> ustring list \<Rightarrow> int \<Rightarrow> ustring \<Rightarrow>
     outcome \<times> review_state" where
  "process_sentence_interactively fuel U edit_entry d typed sentences0 current_sentence_index0
      variation =
     sentence_loop fuel U edit_entry variation
       \<lparr>sentences = sentences0, current_sentence_index = current_sentence_index0,
        sentence = [], words = [], selected_word_index = 0,
        pi_dictionary = d, stdin = typed, stdout = []\<rparr>"

section \<open>A character table for the examples\<close>

text \<open>
  The Unicode character database on the code points of the examples: ASCII, the long
  s U+017F, the combining marks U+0308, U+0323, U+032C and the quotes U+2039, U+203A.
  The examples contain no other code point.
\<close>

definition ascii_upper :: "cp \<Rightarrow> bool" where
  "ascii_upper c \<longleftrightarrow> 65 \<le> c \<and> c \<le> 90"

definition ascii_lower :: "cp \<Rightarrow> bool" where
  "ascii_lower c \<longleftrightarrow> 97 \<le> c \<and> c \<le> 122"

definition ascii_digit :: "cp \<Rightarrow> bool" where
  "ascii_digit c \<longleftrightarrow> 48 \<le> c \<and> c \<le> 57"

definition lower0 :: "cp \<Rightarrow> cp" where
  "lower0 c = (if ascii_upper c then c + 32 else c)"

definition upper0 :: "cp \<Rightarrow> cp" where
  "upper0 c = (if ascii_lower c then c - 32 else if c = 383 then 83 else c)"

definition ucd0 :: ucd where
  "ucd0 = \<lparr>
     isalnum = (\<lambda>c. ascii_upper c \<or> ascii_lower c \<or> ascii_digit c \<or> c = 383),
     isspace = (\<lambda>c. (9 \<le> c \<and> c \<le> 13) \<or> (28 \<le> c \<and> c \<le> 32)),
     isupper = ascii_upper,
     islower = (\<lambda>c. ascii_lower c \<or> c = 383),
     istitle = (\<lambda>c. False),
     iscased = (\<lambda>c. ascii_upper c \<or> ascii_lower c \<or> c = 383),
     iscaseignorable = (\<lambda>c. c \<in> {39, 46, 58, 94, 96, 776, 803, 812}),
     toupper_full = (\<lambda>c. [upper0 c]),
     tolower_full = (\<lambda>c. [lower0 c]),
     totitle_full = (\<lambda>c. [upper0 c]),
     tolower = lower0,
     toupper = upper0,
     casefix = (\<lambda>c. if c = 105 then [305] else if c = 305 then [105]
                    else if c = 115 then [383] else if c = 383 then [115] else [])
   \<rparr>"

section \<open>Predicates of the statements\<close>

text \<open>\<open>re.search\<close> for the pattern of \<open>re_sub\<close>: whether it matches at some position.\<close>

fun re_search :: "ucd \<Rightarrow> bool \<Rightarrow> ustring \<Rightarrow> cp option \<Rightarrow> ustring \<Rightarrow> bool" where
  "re_search U ignorecase word prev [] = match_here U ignorecase word prev []"
| "re_search U ignorecase word prev (c # cs) =
     (match_here U ignorecase word prev (c # cs) \<or> re_search U ignorecase word (Some c) cs)"

text \<open>The test of \<open>transform_word\<close>: the word ends in one \<open>s\<close>, not in two.\<close>

definition single_s :: "ustring \<Rightarrow> bool" where
  "single_s word \<longleftrightarrow>
     word \<noteq> [] \<and> last word = 115 \<and> (length word < 2 \<or> word ! (length word - 2) \<noteq> 115)"

definition ends_double_s :: "ustring \<Rightarrow> bool" where
  "ends_double_s word \<longleftrightarrow>
     2 \<le> length word \<and> last word = 115 \<and> word ! (length word - 2) = 115"

text \<open>The value the dictionary holds for the stem of a word, None when it has none.\<close>

definition stem_value :: "ucd \<Rightarrow> dictionary \<Rightarrow> ustring \<Rightarrow> ustring \<Rightarrow> ustring option" where
  "stem_value U d variation word =
     (case d (str_lower U (butlast word)) of None \<Rightarrow> None | Some e \<Rightarrow> pi_get e variation)"

text \<open>
  A text that no pass of \<open>transcribe\<close> rewrites: no key of the fixed mapping matches
  in it as a whole word, and no token that is not white space has its lowercase form
  in the lookup of the variation or is the stem of a dictionary word with one \<open>s\<close>.
\<close>

definition stable :: "ucd \<Rightarrow> dictionary \<Rightarrow> ustring \<Rightarrow> ustring \<Rightarrow> bool" where
  "stable U d variation text \<longleftrightarrow>
     (\<forall>key \<in> set (map fst preliminar_replacements). \<not> re_search U True key None text) \<and>
     (\<forall>token \<in> set (findall_tokens U text).
        str_strip U token \<noteq> [] \<longrightarrow>
          replacement_dict d variation (str_lower U token) = None \<and>
          (single_s token \<longrightarrow> stem_value U d variation token = None))"

text \<open>
  Every character that a character of the word matches under \<open>re.IGNORECASE\<close> is a
  word character. Then a match of the word is a maximal run of word characters.
\<close>

definition matches_are_words :: "ucd \<Rightarrow> ustring \<Rightarrow> bool" where
  "matches_are_words U word \<longleftrightarrow> (\<forall>p \<in> set word. \<forall>t. ci_match U p t \<longrightarrow> is_word U t)"

text \<open>The concatenation of two results, the first exception winning.\<close>

definition then_append :: "py_error + ustring \<Rightarrow> py_error + ustring \<Rightarrow> py_error + ustring" where
  "then_append x y =
     (case x of Inl e \<Rightarrow> Inl e | Inr a \<Rightarrow> (case y of Inl e \<Rightarrow> Inl e | Inr b \<Rightarrow> Inr (a @ b)))"

section \<open>Dictionaries and an editor for the examples\<close>

definition L1 :: ustring where
  "L1 = ustr ''L1''"

definition cat_dictionary :: dictionary where
  "cat_dictionary =
     [ustr ''cat'' \<mapsto> \<lparr>whole = ustr ''cat'', PI = [L1 \<mapsto> Some (ustr ''kat'')]\<rparr>]"

text \<open>An entry for \<open>cat\<close> without a value for any variation, and one whose value for
  \<open>L1\<close> is null.\<close>

definition cat_without_variation :: dictionary where
  "cat_without_variation = [ustr ''cat'' \<mapsto> \<lparr>whole = ustr ''cat'', PI = Map.empty\<rparr>]"

definition cat_null_variation :: dictionary where
  "cat_null_variation = [ustr ''cat'' \<mapsto> \<lparr>whole = ustr ''cat'', PI = [L1 \<mapsto> None]\<rparr>]"

definition kAt_dictionary :: dictionary where
  "kAt_dictionary =
     [ustr ''cat'' \<mapsto> \<lparr>whole = ustr ''cat'', PI = [L1 \<mapsto> Some (ustr ''kAt'')]\<rparr>]"

definition glas_dictionary :: dictionary where
  "glas_dictionary =
     [ustr ''glas'' \<mapsto> \<lparr>whole = ustr ''glas'', PI = [L1 \<mapsto> Some (ustr ''glaz'')]\<rparr>]"

definition ampersand_dictionary :: dictionary where
  "ampersand_dictionary =
     [ustr ''&'' \<mapsto> \<lparr>whole = ustr ''&'', PI = [L1 \<mapsto> Some (ustr ''and'')]\<rparr>]"

definition no_editor :: editor where
  "no_editor d word typed = (d, typed)"

text \<open>A state of the review: three sentences, the cursor on the first word.\<close>

definition three_sentences :: review_state where
  "three_sentences =
     \<lparr>sentences = [ustr ''cat one'', ustr ''dog'', ustr ''my Cat!''],
      current_sentence_index = 0, sentence = ustr ''cat one'',
      words = [ustr ''cat'', ustr ''one''], selected_word_index = 0,
      pi_dictionary = cat_dictionary, stdin = [ustr ''x''], stdout = []\<rparr>"

section \<open>Tokens\<close>

declare re_sub.simps [simp del]

lemma concat_findall_tokens: "concat (findall_tokens U s) = s"
  by (induction U s rule: findall_tokens.induct) simp_all

lemma findall_tokens_nonempty: "tok \<in> set (findall_tokens U s) \<Longrightarrow> tok \<noteq> []"
  by (induction U s rule: findall_tokens.induct) auto

lemma findall_tokens_class:
  "tok \<in> set (findall_tokens U s) \<Longrightarrow> \<forall>x \<in> set tok. token_class U (hd tok) x"
proof (induction U s rule: findall_tokens.induct)
  case (1 U)
  then show ?case by simp
next
  case (2 U c cs)
  have "token_class U c c" by (simp add: token_class_def)
  with 2 show ?case by (auto dest: set_takeWhileD)
qed

lemma map_result_pointwise:
  "(\<And>x. x \<in> set xs \<Longrightarrow> f x = Inr (g x)) \<Longrightarrow> map_result f xs = Inr (map g xs)"
  by (induction xs) simp_all

lemma map_result_total:
  "(\<And>x. x \<in> set xs \<Longrightarrow> \<exists>y. f x = Inr y) \<Longrightarrow> \<exists>ys. map_result f xs = Inr ys"
proof (induction xs)
  case Nil
  then show ?case by simp
next
  case (Cons x xs)
  then obtain y ys where "f x = Inr y" "map_result f xs = Inr ys"
    by (meson list.set_intros)
  then show ?case by simp
qed

lemma map_result_nth:
  "map_result f xs = Inr ys \<Longrightarrow>
   length ys = length xs \<and> (\<forall>i < length xs. f (xs ! i) = Inr (ys ! i))"
proof (induction xs arbitrary: ys)
  case Nil
  then show ?case by simp
next
  case (Cons x xs)
  then show ?case
    by (auto split: sum.splits simp: nth_Cons split: nat.splits)
qed

section \<open>A text without a match is left as it is\<close>

lemma re_sub_no_match:
  "\<not> re_search U ignorecase word prev rest \<Longrightarrow>
   re_sub U ignorecase word callback prev rest = Inr rest"
proof (induction rest arbitrary: prev)
  case Nil
  then show ?case by (subst re_sub.simps) simp
next
  case (Cons c cs)
  then have "\<not> match_here U ignorecase word prev (c # cs)"
    and "re_sub U ignorecase word callback (Some c) cs = Inr cs"
    by simp_all
  then show ?case by (subst re_sub.simps) simp
qed

lemma preliminar_loop_no_match:
  "(\<And>key. key \<in> set keys \<Longrightarrow> \<not> re_search U True key None text) \<Longrightarrow>
   preliminar_loop U keys text = Inr text"
  by (induction keys) (simp_all add: re_sub_no_match)

lemma update_words_unchanged:
  assumes "\<And>token. token \<in> set (findall_tokens U text) \<Longrightarrow> str_strip U token \<noteq> [] \<Longrightarrow>
             replacement_dict d variation (str_lower U token) = None"
  shows "update_words_for_piss_variation U text d variation = Inr text"
proof -
  have "map_result (update_token U (replacement_dict d variation)) (findall_tokens U text)
        = Inr (map (\<lambda>t. t) (findall_tokens U text))"
    by (rule map_result_pointwise) (simp add: update_token_def replace_word_def assms)
  then show ?thesis
    by (simp add: update_words_for_piss_variation_def join_tokens_def concat_findall_tokens)
qed

lemma transform_word_unchanged:
  "word \<noteq> [] \<Longrightarrow> (single_s word \<Longrightarrow> stem_value U d variation word = None) \<Longrightarrow>
   transform_word U d variation word = Inr word"
  by (auto simp: transform_word_def single_s_def stem_value_def pi_get_def split: option.splits)

lemma transform_words_unchanged:
  assumes "\<And>token. token \<in> set (findall_tokens U text) \<Longrightarrow> str_strip U token \<noteq> [] \<Longrightarrow>
             single_s token \<Longrightarrow> stem_value U d variation token = None"
  shows "transform_words_with_s_suffix U text d variation = Inr text"
proof -
  have "map_result (transform_token U d variation) (findall_tokens U text)
        = Inr (map (\<lambda>t. t) (findall_tokens U text))"
    by (rule map_result_pointwise)
       (simp add: transform_token_def transform_word_unchanged findall_tokens_nonempty assms)
  then show ?thesis
    by (simp add: transform_words_with_s_suffix_def join_tokens_def concat_findall_tokens)
qed

section \<open>The cursor of the review\<close>

lemma and_then_index:
  "(\<And>s. current_sentence_index (snd (f s)) = current_sentence_index s) \<Longrightarrow>
   current_sentence_index (snd (and_then r f)) = current_sentence_index (snd r)"
  by (cases r) (auto simp: and_then_def split: control.splits)

lemma load_sentence_index [simp]:
  "current_sentence_index (snd (load_sentence U st)) = current_sentence_index st"
  by (simp add: load_sentence_def split: sum.splits)

lemma emit_index [simp]: "current_sentence_index (snd (emit ms st)) = current_sentence_index st"
  by (simp add: emit_def)

lemma replace_everywhere_index [simp]:
  "current_sentence_index (snd (replace_everywhere U w r st)) = current_sentence_index st"
  by (simp add: replace_everywhere_def split: prod.splits option.splits)

text \<open>The action \<open>c\<close> never moves to another sentence, whatever the word index becomes.\<close>

lemma customize_word_keeps_sentence:
  "current_sentence_index (snd (customize_word U variation e w st)) = current_sentence_index st"
  unfolding customize_word_def
  by (simp add: and_then_index read_line_def Let_def split: option.splits list.splits)

text \<open>The block of \<open>a\<close> and \<open>n\<close> moves to the next sentence after the last word.\<close>

lemma next_word_rollover:
  "int (length (words st)) \<le> selected_word_index st + 1 \<Longrightarrow>
   current_sentence_index (snd (next_word U st)) = current_sentence_index st + 1"
  by (simp add: next_word_def Let_def and_then_index)

text \<open>When the inner loop ends with the sentence index at the length of the list, the
  assignment \<open>sentences[current_sentence_index] = sentence\<close> raises.\<close>

lemma word_loop_past_the_end:
  "int (length (words st)) \<le> selected_word_index st \<Longrightarrow>
   int (length (sentences st)) \<le> current_sentence_index st \<Longrightarrow>
   word_loop (Suc n) U edit_entry variation st = (Raised IndexError, st)"
  by (simp add: py_store_def)

lemma and_then_emit: "and_then (emit ms st) f = f (st\<lparr>stdout := stdout st @ ms\<rparr>)"
  by (simp add: and_then_def emit_def)

lemma py_index_last:
  "xs \<noteq> [] \<Longrightarrow> py_index xs (int (length xs) - 1) = Inr (last xs)"
  by (cases xs rule: rev_cases) (simp_all add: py_index_def nth_append)

text \<open>
  The answer \<open>n\<close> at the last word of the last sentence, for a word without an entry:
  the loop raises, whatever the sentences are.
\<close>

lemma next_at_last_word_raises:
  assumes w: "words st \<noteq> []"
    and i: "selected_word_index st = int (length (words st)) - 1"
    and c: "current_sentence_index st = int (length (sentences st)) - 1"
    and typed: "stdin st = l # ls" "str_lower U l = ustr ''n''"
    and entry: "pi_dictionary st (str_lower U (last (words st))) = None"
  shows "fst (word_loop (Suc (Suc n)) U edit_entry variation st) = Raised IndexError"
proof -
  let ?st1 = "st\<lparr>stdout := stdout st @
      [Display (highlight_selected_word U (sentence st) (last (words st))), No_PI_Entry,
       Options_Prompt], stdin := ls\<rparr>"
  let ?st2 = "?st1\<lparr>selected_word_index := selected_word_index st + 1,
      current_sentence_index := current_sentence_index st + 1\<rparr>"
  from w i have idx: "py_index (words st) (selected_word_index st) = Inr (last (words st))"
    by (simp add: py_index_last)
  have "next_word U ?st1 = (Continue, ?st2)"
    using i c by (simp add: next_word_def Let_def)
  then have "dispatch U edit_entry variation None (last (words st)) (ustr ''n'') ?st1 =
      (Continue, ?st2)"
    by (simp add: dispatch_def ustr_def)
  with idx typed entry have step: "review_word U edit_entry variation st = (Continue, ?st2)"
    by (simp add: review_word_def Let_def show_entry_def and_then_emit read_line_def
          and_then_def emit_def)
  from w i have "selected_word_index st < int (length (words st))" by simp
  with step have "word_loop (Suc (Suc n)) U edit_entry variation st =
      word_loop (Suc n) U edit_entry variation ?st2" by simp
  also have "\<dots> = (Raised IndexError, ?st2)"
    using i c by (intro word_loop_past_the_end) simp_all
  finally show ?thesis by simp
qed

text \<open>
  C1 (the review ends normally after the last word of the last sentence). The code
  does not: with the one sentence \<open>Hi\<close> and the answer \<open>n\<close>, and with two sentences of two
  words and four answers \<open>n\<close>, the cursor passes the last word of the last sentence, the
  inner loop ends and the assignment after it raises IndexError. The sentence list is
  intact, but the function does not return to its caller.
\<close>

theorem review_exhausted_raises_IndexError:
  "fst (process_sentence_interactively 10 ucd0 no_editor Map.empty
          [ustr ''n''] [ustr ''Hi''] 0 L1) = Raised IndexError \<and>
   sentences (snd (process_sentence_interactively 10 ucd0 no_editor Map.empty
          [ustr ''n''] [ustr ''Hi''] 0 L1)) = [ustr ''Hi''] \<and>
   fst (process_sentence_interactively 10 ucd0 no_editor Map.empty
          [ustr ''n'', ustr ''n'', ustr ''n'', ustr ''n'']
          [ustr ''Hi you'', ustr ''be me''] 0 L1) = Raised IndexError"
  by code_simp

text \<open>The display raises when the entry has no key for the variation; a null
  replacement raises at an upper-case or title-case match and deletes any other.\<close>

lemma show_entry_missing_variation:
  "PI e variation = None \<Longrightarrow> fst (show_entry variation (Some e) st) = Raise KeyError"
  by (simp add: show_entry_def and_then_def emit_def)

lemma replace_null:
  "replace U None m =
     (if str_isupper U m \<or> str_istitle U m then Inl AttributeError else Inr [])"
  by (simp add: replace_def)

text \<open>
  C2 (an entry without a value for the variation is not an error in the review). The
  code raises: an entry whose \<open>PI\<close> has no key for the variation raises KeyError when
  the entry is displayed, before any answer is read; an entry whose value is null
  raises AttributeError when \<open>a\<close> is answered at the capitalised word \<open>Cat\<close>; and at the
  lowercase word \<open>cat\<close> the answer \<open>a\<close> deletes the word from the sentence.
\<close>

theorem missing_variation_raises:
  "fst (process_sentence_interactively 10 ucd0 no_editor cat_without_variation
          [ustr ''n''] [ustr ''cat''] 0 L1) = Raised KeyError \<and>
   fst (process_sentence_interactively 10 ucd0 no_editor cat_null_variation
          [ustr ''a''] [ustr ''Cat''] 0 L1) = Raised AttributeError \<and>
   fst (process_sentence_interactively 10 ucd0 no_editor cat_null_variation
          [ustr ''a'', ustr ''q''] [ustr ''cat sat on''] 0 L1) = Returned \<and>
   sentences (snd (process_sentence_interactively 10 ucd0 no_editor cat_null_variation
          [ustr ''a'', ustr ''q''] [ustr ''cat sat on''] 0 L1)) = [ustr '' sat on'']"
  by code_simp

text \<open>
  C3 (the action \<open>c\<close> advances with the sentence rollover of \<open>a\<close> and \<open>n\<close>). The code has
  no rollover in this branch. With the sentences \<open>cat\<close> and \<open>dog\<close>, the answer \<open>c\<close> and the
  custom text \<open>x\<close>, the word index passes the only word of the first sentence, and the
  next word shown is the first word of the same sentence, now \<open>x\<close>, not \<open>dog\<close>: the
  sentence index is still 0 when the user quits. The answer \<open>a\<close> at the same place
  moves to \<open>dog\<close>.
\<close>

theorem customize_restarts_sentence:
  "stdout (snd (process_sentence_interactively 10 ucd0 no_editor cat_dictionary
          [ustr ''c'', ustr ''x'', ustr ''q''] [ustr ''cat'', ustr ''dog''] 0 L1)) =
     [Display (ustr ''>cat<''), PI_Entry (ustr ''cat''),
      Variation_Word L1 (Some (ustr ''kat'')), Options_Prompt,
      Customize_Prompt (Some (ustr ''kat'')), Customized (ustr ''cat'') (Some (ustr ''x'')),
      Display (ustr ''>x<''), No_PI_Entry, Options_Prompt, Exiting] \<and>
   current_sentence_index (snd (process_sentence_interactively 10 ucd0 no_editor cat_dictionary
          [ustr ''c'', ustr ''x'', ustr ''q''] [ustr ''cat'', ustr ''dog''] 0 L1)) = 0 \<and>
   current_sentence_index (snd (process_sentence_interactively 10 ucd0 no_editor cat_dictionary
          [ustr ''a'', ustr ''q''] [ustr ''cat'', ustr ''dog''] 0 L1)) = 1"
  by code_simp

section \<open>The pipeline on texts\<close>

subsection \<open>Idempotence\<close>

text \<open>
  C4, counterexample (\<open>transcribe\<close> is idempotent). With the empty dictionary \<open>the\<close>
  becomes \<open>the\<close> followed by the combining mark U+032C, which is not a word character:
  the key \<open>the\<close> still matches as a whole word in the output, and the second pass
  appends the mark again.
\<close>

theorem transcribe_not_idempotent:
  "transcribe ucd0 Map.empty (ustr ''the'') L1 = Inr (ustr ''the'' @ [812]) \<and>
   transcribe ucd0 Map.empty (ustr ''the'' @ [812]) L1 = Inr (ustr ''the'' @ [812, 812]) \<and>
   ustr ''the'' @ [812, 812] \<noteq> ustr ''the'' @ [812]"
  by code_simp

lemma stable_kats: "stable ucd0 cat_dictionary L1 (ustr ''kats'')"
  by code_simp

lemma transcribe_cats: "transcribe ucd0 cat_dictionary (ustr ''cats'') L1 = Inr (ustr ''kats'')"
  by code_simp

text \<open>
  C4, amended: \<open>transcribe\<close> returns a text unchanged when no pass finds anything to
  rewrite in it, that is when the text is \<open>stable\<close>. So a second application leaves the
  output of the first as it is whenever that output is stable, and only then is
  guaranteed to.
\<close>

theorem transcribe_stable:
  assumes "stable U d variation text"
  shows "transcribe U d text variation = Inr text"
proof -
  from assms have 1: "perform_preliminar_replacements U text = Inr text"
    unfolding perform_preliminar_replacements_def stable_def
    by (intro preliminar_loop_no_match) blast
  from assms have 2: "update_words_for_piss_variation U text d variation = Inr text"
    unfolding stable_def by (intro update_words_unchanged) blast
  from assms have 3: "transform_words_with_s_suffix U text d variation = Inr text"
    unfolding stable_def by (intro transform_words_unchanged) blast
  show ?thesis by (simp add: transcribe_def 1 2 3)
qed

theorem transcribe_stable_witness:
  "transcribe ucd0 cat_dictionary (ustr ''cats'') L1 = Inr (ustr ''kats'') \<and>
   stable ucd0 cat_dictionary L1 (ustr ''kats'') \<and>
   transcribe ucd0 cat_dictionary (ustr ''kats'') L1 = Inr (ustr ''kats'')"
  using transcribe_stable [OF stable_kats] stable_kats transcribe_cats by simp

subsection \<open>The suffix rule\<close>

lemma transform_word_double_s:
  "ends_double_s word \<Longrightarrow> transform_word U d variation word = Inr word"
  by (auto simp: transform_word_def ends_double_s_def)

lemma transform_word_changes:
  "transform_word U d variation word = Inr out \<Longrightarrow> out \<noteq> word \<Longrightarrow> single_s word"
  by (auto simp: transform_word_def single_s_def split: if_splits option.splits list.splits)

lemma transform_word_rewrites:
  "single_s word \<Longrightarrow> butlast word \<noteq> [] \<Longrightarrow> d (str_lower U (butlast word)) = Some e \<Longrightarrow>
   PI e variation = Some (Some r) \<Longrightarrow>
   transform_word U d variation word =
     Inr ((if isupper U (hd (butlast word)) then str_capitalize U r else r) @ [115])"
  by (auto simp: transform_word_def single_s_def split: list.splits)

lemma findall_tokens_word:
  assumes "word \<noteq> []" and all: "\<forall>c \<in> set word. is_word U c"
  shows "findall_tokens U word = [word]"
proof -
  from assms obtain c cs where w: "word = c # cs" by (cases word) auto
  with all have run: "takeWhile (is_word U) cs = cs" "dropWhile (is_word U) cs = []"
    by (simp_all add: takeWhile_eq_all_conv dropWhile_eq_Nil_conv)
  from w all show ?thesis by (simp add: token_class_def run)
qed

lemma cats_facts:
  "perform_preliminar_replacements ucd0 (ustr ''cats'') = Inr (ustr ''cats'')"
  "findall_tokens ucd0 (ustr ''cats'') = [ustr ''cats'']"
  "str_lower ucd0 (ustr ''cats'') = ustr ''cats''"
  "str_lower ucd0 (butlast (ustr ''cats'')) = ustr ''cat''"
  "str_strip ucd0 (ustr ''cats'') \<noteq> []"
  "single_s (ustr ''cats'')"
  "butlast (ustr ''cats'') \<noteq> []"
  "isupper ucd0 (hd (butlast (ustr ''cats''))) = False"
  "ustr ''kat'' @ [115] = ustr ''kats''"
  by code_simp+

lemma transcribe_cats_general:
  assumes "d (ustr ''cat'') = Some e" "PI e variation = Some (Some (ustr ''kat''))"
    "replacement_dict d variation (ustr ''cats'') = None"
  shows "transcribe ucd0 d (ustr ''cats'') variation = Inr (ustr ''kats'')"
proof -
  have 2: "update_words_for_piss_variation ucd0 (ustr ''cats'') d variation = Inr (ustr ''cats'')"
    by (rule update_words_unchanged) (simp add: cats_facts assms)
  have "d (str_lower ucd0 (butlast (ustr ''cats''))) = Some e"
    by (simp only: cats_facts assms)
  from transform_word_rewrites [where word = "ustr ''cats''" and d = d and U = ucd0 and e = e
      and variation = variation and r = "ustr ''kat''",
      OF cats_facts(6) cats_facts(7) this assms(2)]
  have "transform_word ucd0 d variation (ustr ''cats'') = Inr (ustr ''kats'')"
    by (simp only: cats_facts if_False)
  then have 3: "transform_words_with_s_suffix ucd0 (ustr ''cats'') d variation = Inr (ustr ''kats'')"
    by (simp add: transform_words_with_s_suffix_def join_tokens_def transform_token_def cats_facts)
  show ?thesis by (simp add: transcribe_def cats_facts 2 3)
qed

text \<open>
  C6. With a dictionary that maps \<open>cat\<close> to \<open>kat\<close> under the variation (and has no value
  for \<open>cats\<close> itself), \<open>transcribe\<close> turns \<open>cats\<close> into \<open>kats\<close>. A token that ends in a
  double \<open>s\<close> is left unchanged by \<open>transform_word\<close>, whatever the dictionary holds for
  the token without its last \<open>s\<close>, and so is a text that is one such word; a token
  that \<open>transform_word\<close> changes ends in exactly one \<open>s\<close>.
\<close>

theorem suffix_rule:
  "(d (ustr ''cat'') = Some e \<and> PI e variation = Some (Some (ustr ''kat'')) \<and>
      replacement_dict d variation (ustr ''cats'') = None \<longrightarrow>
      transcribe ucd0 d (ustr ''cats'') variation = Inr (ustr ''kats'')) \<and>
   (ends_double_s word \<longrightarrow> transform_word U d' variation' word = Inr word) \<and>
   (ends_double_s word \<and> (\<forall>c \<in> set word. is_word U c) \<longrightarrow>
      transform_words_with_s_suffix U word d' variation' = Inr word) \<and>
   (transform_word U d' variation' word' = Inr out \<and> out \<noteq> word' \<longrightarrow> single_s word')"
proof (intro conjI impI)
  show "transcribe ucd0 d (ustr ''cats'') variation = Inr (ustr ''kats'')"
    if "d (ustr ''cat'') = Some e \<and> PI e variation = Some (Some (ustr ''kat'')) \<and>
        replacement_dict d variation (ustr ''cats'') = None"
    using that by (blast intro: transcribe_cats_general)
  show "transform_word U d' variation' word = Inr word" if "ends_double_s word"
    using that by (rule transform_word_double_s)
  show "transform_words_with_s_suffix U word d' variation' = Inr word"
    if h: "ends_double_s word \<and> (\<forall>c \<in> set word. is_word U c)"
  proof -
    from h have ne: "word \<noteq> []" by (auto simp: ends_double_s_def)
    with h have "findall_tokens U word = [word]" by (simp add: findall_tokens_word)
    with h show ?thesis
      by (simp add: transform_words_with_s_suffix_def join_tokens_def transform_token_def
            transform_word_double_s)
  qed
  show "single_s word'" if "transform_word U d' variation' word' = Inr out \<and> out \<noteq> word'"
    using that by (blast intro: transform_word_changes)
qed

lemma cat_entry:
  "cat_dictionary (ustr ''cat'') = Some \<lparr>whole = ustr ''cat'', PI = [L1 \<mapsto> Some (ustr ''kat'')]\<rparr>"
  "PI \<lparr>whole = ustr ''cat'', PI = [L1 \<mapsto> Some (ustr ''kat'')]\<rparr> L1 = Some (Some (ustr ''kat''))"
  by (simp_all add: cat_dictionary_def)

lemma suffix_examples:
  "replacement_dict cat_dictionary L1 (ustr ''cats'') = None"
  "ends_double_s (ustr ''glass'')"
  "\<forall>c \<in> set (ustr ''glass''). is_word ucd0 c"
  "stem_value ucd0 glas_dictionary L1 (ustr ''glass'') = Some (ustr ''glaz'')"
  "transform_word ucd0 cat_dictionary L1 (ustr ''cats'') = Inr (ustr ''kats'')"
  "ustr ''kats'' \<noteq> ustr ''cats''"
  by code_simp+

theorem suffix_rule_witness:
  "transcribe ucd0 cat_dictionary (ustr ''cats'') L1 = Inr (ustr ''kats'') \<and>
   ends_double_s (ustr ''glass'') \<and>
   stem_value ucd0 glas_dictionary L1 (ustr ''glass'') = Some (ustr ''glaz'') \<and>
   transform_word ucd0 glas_dictionary L1 (ustr ''glass'') = Inr (ustr ''glass'') \<and>
   transform_words_with_s_suffix ucd0 (ustr ''glass'') glas_dictionary L1 = Inr (ustr ''glass'') \<and>
   transform_word ucd0 cat_dictionary L1 (ustr ''cats'') = Inr (ustr ''kats'') \<and>
   single_s (ustr ''cats'')"
proof -
  note rule = suffix_rule [where d = cat_dictionary and variation = L1
      and e = "\<lparr>whole = ustr ''cat'', PI = [L1 \<mapsto> Some (ustr ''kat'')]\<rparr>"
      and word = "ustr ''glass''" and U = ucd0 and d' = glas_dictionary and variation' = L1
      and word' = "ustr ''cats''" and out = "ustr ''kats''"]
  note rule' = suffix_rule [where word = "ustr ''glass''" and U = ucd0 and d' = cat_dictionary
      and variation' = L1 and word' = "ustr ''cats''" and out = "ustr ''kats''"]
  from rule cat_entry suffix_examples(1)
  have 1: "transcribe ucd0 cat_dictionary (ustr ''cats'') L1 = Inr (ustr ''kats'')"
    by blast
  from rule suffix_examples(2,3)
  have 2: "transform_word ucd0 glas_dictionary L1 (ustr ''glass'') = Inr (ustr ''glass'')"
    and 3: "transform_words_with_s_suffix ucd0 (ustr ''glass'') glas_dictionary L1 =
      Inr (ustr ''glass'')"
    by blast+
  from rule' suffix_examples(5,6) have 4: "single_s (ustr ''cats'')"
    by blast
  from 1 2 3 4 suffix_examples show ?thesis by blast
qed

subsection \<open>Whole words\<close>

lemma theater_facts:
  "perform_preliminar_replacements ucd0 (ustr ''theater'') = Inr (ustr ''theater'')"
  "findall_tokens ucd0 (ustr ''theater'') = [ustr ''theater'']"
  "str_lower ucd0 (ustr ''theater'') = ustr ''theater''"
  "\<not> single_s (ustr ''theater'')"
  by code_simp+

lemma the_cat:
  "perform_preliminar_replacements ucd0 (ustr ''The cat'') =
     Inr (ustr ''The'' @ [812] @ ustr '' cat'')"
  by code_simp

text \<open>
  C7. When the dictionary has no entry for \<open>theater\<close>, \<open>transcribe\<close> returns \<open>theater\<close>
  unchanged: the key \<open>the\<close> does not match inside the word. And
  \<open>perform_preliminar_replacements\<close> turns \<open>The cat\<close> into \<open>The\<close>, the combining mark
  U+032C, and \<open> cat\<close>: the diacritic form of \<open>the\<close> with its first letter capitalised.
\<close>

theorem whole_word_boundary:
  "(d (ustr ''theater'') = None \<longrightarrow>
      transcribe ucd0 d (ustr ''theater'') variation = Inr (ustr ''theater'')) \<and>
   perform_preliminar_replacements ucd0 (ustr ''The cat'') =
      Inr (ustr ''The'' @ [812] @ ustr '' cat'')"
proof (intro conjI impI)
  assume none: "d (ustr ''theater'') = None"
  have 2: "update_words_for_piss_variation ucd0 (ustr ''theater'') d variation =
      Inr (ustr ''theater'')"
    by (rule update_words_unchanged) (simp add: theater_facts replacement_dict_def none)
  have 3: "transform_words_with_s_suffix ucd0 (ustr ''theater'') d variation =
      Inr (ustr ''theater'')"
    by (rule transform_words_unchanged) (simp add: theater_facts)
  show "transcribe ucd0 d (ustr ''theater'') variation = Inr (ustr ''theater'')"
    by (simp add: transcribe_def theater_facts 2 3)
next
  show "perform_preliminar_replacements ucd0 (ustr ''The cat'') =
      Inr (ustr ''The'' @ [812] @ ustr '' cat'')"
    by (rule the_cat)
qed

theorem whole_word_boundary_witness:
  "cat_dictionary (ustr ''theater'') = None \<and>
   transcribe ucd0 cat_dictionary (ustr ''theater'') L1 = Inr (ustr ''theater'')"
proof -
  have none: "cat_dictionary (ustr ''theater'') = None" by code_simp
  with whole_word_boundary [of cat_dictionary L1] show ?thesis by simp
qed

subsection \<open>Tokens of the variation substitution\<close>

lemma replacement_dict_nonempty: "replacement_dict d v w = Some r \<Longrightarrow> r \<noteq> []"
  by (auto simp: replacement_dict_def split: option.splits if_splits)

lemma replace_word_total:
  "word \<noteq> [] \<Longrightarrow> \<exists>out. replace_word U (replacement_dict d v) word = Inr out"
  by (auto simp: replace_word_def split: option.splits list.splits dest: replacement_dict_nonempty)

lemma update_token_total:
  "token \<noteq> [] \<Longrightarrow> \<exists>out. update_token U (replacement_dict d v) token = Inr out"
  by (simp add: update_token_def replace_word_total)

lemma update_token_unchanged:
  "str_strip U token = [] \<or> rd (str_lower U token) = None \<Longrightarrow>
   update_token U rd token = Inr token"
  by (auto simp: update_token_def replace_word_def)

text \<open>A token that starts with white space is white space throughout.\<close>

lemma space_token_strip:
  assumes "token \<in> set (findall_tokens U s)" "\<not> is_word U (hd token)" "isspace U (hd token)"
  shows "str_strip U token = []"
proof -
  from assms(2,3) have "token_class U (hd token) = isspace U" by (simp add: token_class_def)
  with findall_tokens_class [OF assms(1)] have "\<forall>x \<in> set token. isspace U x" by simp
  then have run: "dropWhile (isspace U) token = []" by (simp only: dropWhile_eq_Nil_conv)
  show ?thesis by (simp add: str_strip_def run)
qed

text \<open>
  C8, counterexample (every punctuation token is left unchanged, for every
  dictionary). \<open>replace_word\<close> is applied to every token that is not white space, so a
  dictionary with the key \<open>&\<close> rewrites the punctuation token \<open>&\<close>.
\<close>

theorem punctuation_key_rewritten:
  "findall_tokens ucd0 (ustr ''a & b'') =
     [ustr ''a'', ustr '' '', ustr ''&'', ustr '' '', ustr ''b''] \<and>
   \<not> is_word ucd0 (hd (ustr ''&'')) \<and> \<not> isspace ucd0 (hd (ustr ''&'')) \<and>
   update_words_for_piss_variation ucd0 (ustr ''a & b'') ampersand_dictionary L1 =
     Inr (ustr ''a and b'') \<and>
   ustr ''a and b'' \<noteq> ustr ''a & b''"
  by code_simp

text \<open>
  C8, amended: for every input, dictionary and variation
  \<open>update_words_for_piss_variation\<close> returns the concatenation, in order, of one result
  for each token, and the tokens concatenate to the input. The result of a white
  space token is the token, and so is the result of every token, word or punctuation,
  whose lowercase form is not in the lookup of the variation: punctuation is changed
  only where a run of punctuation is itself a key with a value.
\<close>

theorem update_words_tokenwise:
  "\<exists>out. map_result (update_token U (replacement_dict d variation)) (findall_tokens U s) = Inr out \<and>
     update_words_for_piss_variation U s d variation = Inr (concat out) \<and>
     concat (findall_tokens U s) = s \<and>
     length out = length (findall_tokens U s) \<and>
     (\<forall>i < length (findall_tokens U s).
        (\<not> is_word U (hd (findall_tokens U s ! i)) \<and> isspace U (hd (findall_tokens U s ! i))
           \<longrightarrow> out ! i = findall_tokens U s ! i) \<and>
        (replacement_dict d variation (str_lower U (findall_tokens U s ! i)) = None
           \<longrightarrow> out ! i = findall_tokens U s ! i))"
proof -
  let ?f = "update_token U (replacement_dict d variation)"
  let ?ts = "findall_tokens U s"
  have "\<exists>out. map_result ?f ?ts = Inr out"
    by (rule map_result_total) (simp add: update_token_total findall_tokens_nonempty)
  then obtain out where out: "map_result ?f ?ts = Inr out" ..
  from map_result_nth [OF out]
  have len: "length out = length ?ts"
    and nth: "\<And>i. i < length ?ts \<Longrightarrow> ?f (?ts ! i) = Inr (out ! i)"
    by simp_all
  have "out ! i = ?ts ! i"
    if "i < length ?ts" "\<not> is_word U (hd (?ts ! i)) \<and> isspace U (hd (?ts ! i))" for i
  proof -
    from that have "str_strip U (?ts ! i) = []" by (intro space_token_strip [of _ U s]) simp_all
    then have "?f (?ts ! i) = Inr (?ts ! i)" by (simp add: update_token_unchanged)
    with nth [OF that(1)] show ?thesis by simp
  qed
  moreover have "out ! i = ?ts ! i"
    if "i < length ?ts" "replacement_dict d variation (str_lower U (?ts ! i)) = None" for i
  proof -
    from that have "?f (?ts ! i) = Inr (?ts ! i)" by (simp add: update_token_unchanged)
    with nth [OF that(1)] show ?thesis by simp
  qed
  ultimately show ?thesis
    using out len
    by (intro exI [of _ out])
       (simp add: update_words_for_piss_variation_def join_tokens_def concat_findall_tokens)
qed

lemma tokens_example:
  "findall_tokens ucd0 (ustr ''Cat, x'') = [ustr ''Cat'', ustr '','', ustr '' '', ustr ''x'']"
  "\<not> is_word ucd0 (hd (ustr '' '')) \<and> isspace ucd0 (hd (ustr '' ''))"
  "replacement_dict cat_dictionary L1 (str_lower ucd0 (ustr '','')) = None"
  "replacement_dict cat_dictionary L1 (str_lower ucd0 (ustr ''x'')) = None"
  "update_words_for_piss_variation ucd0 (ustr ''Cat, x'') cat_dictionary L1 = Inr (ustr ''Kat, x'')"
  by code_simp+

theorem update_words_tokenwise_witness:
  "\<exists>out. update_words_for_piss_variation ucd0 (ustr ''Cat, x'') cat_dictionary L1 = Inr (concat out) \<and>
     length out = 4 \<and> out ! 1 = ustr '','' \<and> out ! 2 = ustr '' '' \<and> out ! 3 = ustr ''x'' \<and>
     concat out = ustr ''Kat, x''"
proof -
  from update_words_tokenwise [of ucd0 cat_dictionary L1 "ustr ''Cat, x''"]
  obtain out where
    1: "update_words_for_piss_variation ucd0 (ustr ''Cat, x'') cat_dictionary L1 = Inr (concat out)"
    and 2: "length out = length (findall_tokens ucd0 (ustr ''Cat, x''))"
    and 3: "\<forall>i < length (findall_tokens ucd0 (ustr ''Cat, x'')).
        (\<not> is_word ucd0 (hd (findall_tokens ucd0 (ustr ''Cat, x'') ! i)) \<and>
          isspace ucd0 (hd (findall_tokens ucd0 (ustr ''Cat, x'') ! i))
           \<longrightarrow> out ! i = findall_tokens ucd0 (ustr ''Cat, x'') ! i) \<and>
        (replacement_dict cat_dictionary L1
            (str_lower ucd0 (findall_tokens ucd0 (ustr ''Cat, x'') ! i)) = None
           \<longrightarrow> out ! i = findall_tokens ucd0 (ustr ''Cat, x'') ! i)"
    by blast
  from 2 have len: "length out = 4" by (simp add: tokens_example)
  from 3 [rule_format, of 1] tokens_example have a: "out ! 1 = ustr '',''" by simp
  from 3 [rule_format, of 2] tokens_example have b: "out ! 2 = ustr '' ''" by simp
  from 3 [rule_format, of 3] tokens_example have c: "out ! 3 = ustr ''x''" by simp
  from 1 tokens_example(5) have "concat out = ustr ''Kat, x''" by simp
  with 1 len a b c show ?thesis by blast
qed

section \<open>Substitution by \<open>re_sub\<close>\<close>

lemma then_append_simps [simp]:
  "then_append (Inl e) y = Inl e"
  "then_append (Inr a) (Inl e) = Inl e"
  "then_append (Inr a) (Inr b) = Inr (a @ b)"
  by (simp_all add: then_append_def)

lemma then_append_assoc: "then_append (then_append x y) z = then_append x (then_append y z)"
  by (cases x; cases y; cases z) simp_all

lemma re_sub_match:
  "match_here U ic w prev rest \<Longrightarrow> w \<noteq> [] \<Longrightarrow>
   re_sub U ic w f prev rest =
     then_append (f (take (length w) rest))
       (re_sub U ic w f (Some (last (take (length w) rest))) (drop (length w) rest))"
  by (subst re_sub.simps) (simp add: then_append_def split: sum.splits)

lemma re_sub_no_match_Cons:
  "\<not> match_here U ic w prev (c # cs) \<Longrightarrow>
   re_sub U ic w f prev (c # cs) = then_append (Inr [c]) (re_sub U ic w f (Some c) cs)"
  by (subst re_sub.simps) (simp add: then_append_def split: sum.splits)

lemma re_sub_Nil: "w \<noteq> [] \<Longrightarrow> re_sub U ic w f prev [] = Inr []"
  by (subst re_sub.simps) (simp add: match_here_def)

lemma literal_match_True [simp]: "literal_match U True = ci_match U"
  by (simp add: fun_eq_iff literal_match_def)

lemma head_opt_simps [simp]: "head_opt [] = None" "head_opt (x # xs) = Some x"
  by (simp_all add: head_opt_def)

lemma head_opt_nonempty: "xs \<noteq> [] \<Longrightarrow> head_opt xs = Some (hd xs)"
  by (cases xs) (simp_all add: head_opt_def)

lemma head_opt_append [simp]: "xs \<noteq> [] \<Longrightarrow> head_opt (xs @ ys) = Some (hd xs)"
  by (cases xs) (simp_all add: head_opt_def)

text \<open>The substitution returns when the callback returns on every text the pattern
  can match.\<close>

lemma re_sub_total:
  assumes cb: "\<And>m. list_all2 (literal_match U ignorecase) word m \<Longrightarrow> \<exists>out. callback m = Inr out"
  shows "\<exists>out. re_sub U ignorecase word callback prev rest = Inr out"
proof (induction "length rest" arbitrary: rest prev rule: less_induct)
  case less
  show ?case
  proof (cases "match_here U ignorecase word prev rest")
    case True
    then have "list_all2 (literal_match U ignorecase) word (take (length word) rest)"
      by (simp add: match_here_def)
    from cb [OF this] obtain r where r: "callback (take (length word) rest) = Inr r" by blast
    show ?thesis
    proof (cases "word = []")
      case w: True
      show ?thesis
      proof (cases rest)
        case Nil
        with True r w show ?thesis by (subst re_sub.simps) simp
      next
        case (Cons c cs)
        with less [of cs "Some c"] obtain out
          where "re_sub U ignorecase word callback (Some c) cs = Inr out" by auto
        with True r w Cons show ?thesis by (subst re_sub.simps) simp
      qed
    next
      case w: False
      with True have "length (drop (length word) rest) < length rest"
        by (auto simp: match_here_def neq_Nil_conv)
      from less [OF this] obtain out
        where "re_sub U ignorecase word callback (Some (last (take (length word) rest)))
                 (drop (length word) rest) = Inr out" by blast
      with True r w show ?thesis by (subst re_sub.simps) simp
    qed
  next
    case False
    show ?thesis
    proof (cases rest)
      case Nil
      with False show ?thesis by (subst re_sub.simps) simp
    next
      case (Cons c cs)
      with less [of cs "Some c"] obtain out
        where "re_sub U ignorecase word callback (Some c) cs = Inr out" by auto
      with False Cons show ?thesis by (subst re_sub.simps) simp
    qed
  qed
qed

subsection \<open>A whole-word occurrence\<close>

lemma matched_are_words:
  "matches_are_words U w \<Longrightarrow> list_all2 (ci_match U) w m \<Longrightarrow> x \<in> set m \<Longrightarrow> is_word U x"
  unfolding matches_are_words_def list_all2_conv_all_nth in_set_conv_nth
  by (metis nth_mem)

lemma match_span_words:
  assumes "matches_are_words U w" "match_here U True w prev rest"
    "x \<in> set (take (length w) rest)"
  shows "is_word U x"
  using assms matched_are_words [of U w "take (length w) rest" x]
  by (simp add: match_here_def)

text \<open>A match cannot reach a character that is not a word character.\<close>

lemma match_inside:
  assumes H: "matches_are_words U w" and m: "match_here U True w prev (pre @ tail)"
    and pre: "pre \<noteq> []" "\<not> is_word U (last pre)"
  shows "length w < length pre"
proof (rule ccontr)
  assume "\<not> length w < length pre"
  then have "take (length w) (pre @ tail) = pre @ take (length w - length pre) tail" by simp
  with pre have "last pre \<in> set (take (length w) (pre @ tail))" by simp
  from match_span_words [OF H m this] pre show False by simp
qed

lemma match_here_prefix:
  assumes "length w < length pre"
  shows "match_here U ic w prev (pre @ tail) = match_here U ic w prev pre"
proof -
  from assms have "pre \<noteq> []" and d: "drop (length w) pre \<noteq> []" by auto
  then have "head_opt (pre @ tail) = head_opt pre"
    and "head_opt (drop (length w) pre @ tail) = head_opt (drop (length w) pre)"
    by (simp_all add: head_opt_def split: list.splits)
  with assms show ?thesis by (simp add: match_here_def)
qed

text \<open>
  The text is \<open>pre\<close>, an occurrence \<open>m\<close> of the word between two characters that are not
  word characters (or the ends of the text), and \<open>post\<close>. The substitution is the
  substitution in \<open>pre\<close>, the callback's text for \<open>m\<close>, and the substitution in \<open>post\<close>.
\<close>

lemma re_sub_occurrence:
  assumes H: "matches_are_words U w" and w: "w \<noteq> []"
    and m: "list_all2 (ci_match U) w m"
    and post: "post = [] \<or> \<not> is_word U (hd post)"
  shows "(if pre = [] then \<not> is_word_opt U prev else \<not> is_word U (last pre)) \<Longrightarrow>
     re_sub U True w f prev (pre @ m @ post) =
       then_append (re_sub U True w f prev pre)
         (then_append (f m) (re_sub U True w f (Some (last m)) post))"
proof (induction "length pre" arbitrary: pre prev rule: less_induct)
  case less
  from m have len: "length m = length w" by (simp add: list_all2_lengthD)
  with w have mne: "m \<noteq> []" by auto
  have mw: "\<And>x. x \<in> set m \<Longrightarrow> is_word U x" using matched_are_words [OF H m] .
  show ?case
  proof (cases pre)
    case Nil
    with less.prems have prev: "\<not> is_word_opt U prev" by simp
    from mne mw have "is_word U (hd m)" "is_word U (last m)" by simp_all
    with prev post mne len m w have "match_here U True w prev (m @ post)"
      by (cases post)
         (simp_all add: match_here_def at_boundary_def is_word_opt_def head_opt_nonempty)
    from re_sub_match [OF this w, of f] len Nil w show ?thesis
      by (simp add: re_sub_Nil then_append_def split: sum.splits)
  next
    case (Cons c cs)
    with less.prems have lastpre: "\<not> is_word U (last pre)" by simp
    from Cons have prene: "pre \<noteq> []" by simp
    show ?thesis
    proof (cases "match_here U True w prev (pre @ m @ post)")
      case True
      from match_inside [OF H True prene lastpre] have inside: "length w < length pre" .
      with True have mp: "match_here U True w prev pre" by (simp add: match_here_prefix)
      let ?rest = "drop (length w) pre"
      from inside have rne: "?rest \<noteq> []" by simp
      with lastpre
      have cond: "if ?rest = [] then \<not> is_word_opt U (Some (last (take (length w) pre)))
          else \<not> is_word U (last ?rest)" by simp
      from inside w have shorter: "length ?rest < length pre" by (cases w) auto
      from less.hyps [OF shorter cond]
      have IH: "re_sub U True w f (Some (last (take (length w) pre))) (?rest @ m @ post) =
        then_append (re_sub U True w f (Some (last (take (length w) pre))) ?rest)
          (then_append (f m) (re_sub U True w f (Some (last m)) post))" .
      from inside have tk: "take (length w) (pre @ m @ post) = take (length w) pre"
        and dr: "drop (length w) (pre @ m @ post) = ?rest @ m @ post" by simp_all
      show ?thesis
        by (simp only: re_sub_match [OF True w] re_sub_match [OF mp w] tk dr IH then_append_assoc)
    next
      case False
      have nmp: "\<not> match_here U True w prev pre"
      proof
        assume a: "match_here U True w prev pre"
        then have "match_here U True w prev (pre @ [])" by simp
        from match_inside [OF H this prene lastpre] have "length w < length pre" .
        with a False show False by (simp add: match_here_prefix)
      qed
      have cond: "if cs = [] then \<not> is_word_opt U (Some c) else \<not> is_word U (last cs)"
        using lastpre Cons by (auto simp: is_word_opt_def)
      from less.hyps [of cs "Some c"] Cons cond
      have IH: "re_sub U True w f (Some c) (cs @ m @ post) =
        then_append (re_sub U True w f (Some c) cs)
          (then_append (f m) (re_sub U True w f (Some (last m)) post))" by simp
      from False nmp Cons show ?thesis
        by (simp add: re_sub_no_match_Cons IH then_append_assoc)
    qed
  qed
qed

text \<open>
  Without the condition on the character table: when the occurrence \<open>m\<close> consists of
  word characters, the scan reaches its first character, so \<open>m\<close> is replaced and the
  scan goes on in \<open>post\<close>; \<open>a\<close> is what the scan made of \<open>pre\<close>.
\<close>

lemma re_sub_reaches_occurrence:
  assumes w: "w \<noteq> []"
    and m: "list_all2 (ci_match U) w m"
    and mw: "\<forall>x \<in> set m. is_word U x"
    and post: "post = [] \<or> \<not> is_word U (hd post)"
  shows "(if pre = [] then \<not> is_word_opt U prev else \<not> is_word U (last pre)) \<Longrightarrow>
     \<exists>a. re_sub U True w f prev (pre @ m @ post) =
       then_append a (then_append (f m) (re_sub U True w f (Some (last m)) post))"
proof (induction "length pre" arbitrary: pre prev rule: less_induct)
  case less
  from m have len: "length m = length w" by (simp add: list_all2_lengthD)
  with w have mne: "m \<noteq> []" by auto
  let ?tail = "then_append (f m) (re_sub U True w f (Some (last m)) post)"
  show ?case
  proof (cases pre)
    case Nil
    with less.prems have prev: "\<not> is_word_opt U prev" by simp
    from mne mw have "is_word U (hd m)" "is_word U (last m)" by simp_all
    with prev post mne len m w have "match_here U True w prev (m @ post)"
      by (cases post)
         (simp_all add: match_here_def at_boundary_def is_word_opt_def head_opt_nonempty)
    from re_sub_match [OF this w, of f] len Nil w
    have "re_sub U True w f prev (pre @ m @ post) = then_append (Inr []) ?tail"
      by (simp add: then_append_def split: sum.splits)
    then show ?thesis ..
  next
    case (Cons c cs)
    with less.prems have lastpre: "\<not> is_word U (last pre)" by simp
    from Cons have prene: "pre \<noteq> []" by simp
    show ?thesis
    proof (cases "match_here U True w prev (pre @ m @ post)")
      case True
      have inside: "length w \<le> length pre"
      proof (rule ccontr)
        assume "\<not> length w \<le> length pre"
        then have gt: "length pre < length w" by simp
        define k where "k = length w - length pre"
        from gt len prene have k: "0 < k" "k < length m"
          unfolding k_def by (cases pre; simp)+
        from gt have tk: "take (length w) (pre @ m @ post) = pre @ take k m"
          and dr: "drop (length w) (pre @ m @ post) = drop k m @ post"
          using len by (simp_all add: k_def)
        from k have t: "take k m \<noteq> []" and d: "drop k m \<noteq> []" by auto
        from t have "last (pre @ take k m) = last (take k m)" by simp
        moreover from t mw have "is_word U (last (take k m))"
          by (meson in_set_takeD last_in_set)
        moreover from d mw have "is_word U (hd (drop k m))"
          by (meson in_set_dropD hd_in_set)
        moreover from True w
        have "at_boundary U (Some (last (take (length w) (pre @ m @ post))))
            (head_opt (drop (length w) (pre @ m @ post)))"
          by (simp add: match_here_def del: take_append drop_append)
        then have "at_boundary U (Some (last (pre @ take k m))) (head_opt (drop k m @ post))"
          by (simp only: tk dr)
        ultimately show False
          using d by (simp add: at_boundary_def is_word_opt_def)
      qed
      let ?rest = "drop (length w) pre"
      let ?p = "Some (last (take (length w) (pre @ m @ post)))"
      from inside have tk: "take (length w) (pre @ m @ post) = take (length w) pre"
        and dr: "drop (length w) (pre @ m @ post) = ?rest @ m @ post" by simp_all
      from inside w prene have lasttk: "?rest = [] \<Longrightarrow> last (take (length w) pre) = last pre"
        by simp
      with lastpre
      have cond: "if ?rest = [] then \<not> is_word_opt U (Some (last (take (length w) pre)))
          else \<not> is_word U (last ?rest)" by (simp add: is_word_opt_def)
      from w prene have shorter: "length ?rest < length pre" by (cases w; cases pre) auto
      from less.hyps [OF shorter cond] obtain a
        where "re_sub U True w f (Some (last (take (length w) pre))) (?rest @ m @ post) =
          then_append a ?tail" by blast
      with re_sub_match [OF True w, of f]
      have "re_sub U True w f prev (pre @ m @ post) =
          then_append (then_append (f (take (length w) pre)) a) ?tail"
        by (simp only: tk dr then_append_assoc)
      then show ?thesis ..
    next
      case False
      have cond: "if cs = [] then \<not> is_word_opt U (Some c) else \<not> is_word U (last cs)"
        using lastpre Cons by (auto simp: is_word_opt_def)
      from less.hyps [of cs "Some c"] Cons cond obtain a
        where "re_sub U True w f (Some c) (cs @ m @ post) = then_append a ?tail" by auto
      with False Cons
      have "re_sub U True w f prev (pre @ m @ post) = then_append (then_append (Inr [c]) a) ?tail"
        by (simp add: re_sub_no_match_Cons then_append_assoc)
      then show ?thesis ..
    qed
  qed
qed

section \<open>Accepting and customising a word\<close>

lemma replace_total: "\<exists>out. replace U (Some r) m = Inr out"
  by (simp add: replace_def)

lemma replace_word_in_sentence_total:
  "\<exists>out. replace_word_in_sentence U s w (Some r) = Inr out"
  unfolding replace_word_in_sentence_def by (rule re_sub_total) (rule replace_total)

lemma replace_loop_Some:
  "\<exists>ss. replace_loop U w (Some r) done todo = (None, done @ ss) \<and>
     list_all2 (\<lambda>s s'. replace_word_in_sentence U s w (Some r) = Inr s') todo ss"
proof (induction todo arbitrary: "done")
  case Nil
  then show ?case by simp
next
  case (Cons s todo)
  obtain s' where s': "replace_word_in_sentence U s w (Some r) = Inr s'"
    using replace_word_in_sentence_total by blast
  from Cons [of "done @ [s']"] obtain ss
    where "replace_loop U w (Some r) (done @ [s']) todo = (None, (done @ [s']) @ ss)"
      and "list_all2 (\<lambda>s s'. replace_word_in_sentence U s w (Some r) = Inr s') todo ss"
    by blast
  with s' show ?case by (intro exI [of _ "s' # ss"]) simp
qed

lemma and_then_sentences:
  "(\<And>s. sentences (snd (f s)) = sentences s) \<Longrightarrow>
   sentences (snd (and_then r f)) = sentences (snd r)"
  by (cases r) (auto simp: and_then_def split: control.splits)

lemma load_sentence_sentences [simp]:
  "sentences (snd (load_sentence U st)) = sentences st"
  by (simp add: load_sentence_def split: sum.splits)

lemma emit_sentences [simp]: "sentences (snd (emit ms st)) = sentences st"
  by (simp add: emit_def)

lemma next_word_sentences [simp]: "sentences (snd (next_word U st)) = sentences st"
  by (simp add: next_word_def Let_def and_then_sentences)

lemma replace_everywhere_Some:
  "\<exists>ss. replace_everywhere U w (Some r) st = (Continue, st\<lparr>sentences := ss\<rparr>) \<and>
     list_all2 (\<lambda>s s'. replace_word_in_sentence U s w (Some r) = Inr s') (sentences st) ss"
  using replace_loop_Some [of U w r "[]" "sentences st"]
  by (auto simp: replace_everywhere_def replace_word_in_all_sentences_def)

lemma accept_word_sentences:
  assumes "PI e variation = Some (Some r)"
  shows "list_all2 (\<lambda>s s'. replace_word_in_sentence U s w (Some r) = Inr s')
     (sentences st) (sentences (snd (accept_word U variation e w st)))"
proof -
  from replace_everywhere_Some [of U w r st] obtain ss
    where "replace_everywhere U w (Some r) st = (Continue, st\<lparr>sentences := ss\<rparr>)"
      and "list_all2 (\<lambda>s s'. replace_word_in_sentence U s w (Some r) = Inr s') (sentences st) ss"
    by blast
  with assms show ?thesis by (simp add: accept_word_def and_then_sentences)
qed

lemma customize_word_sentences:
  assumes "PI e variation = Some (Some r)" "stdin st = l # ls"
  shows "list_all2
     (\<lambda>s s'. replace_word_in_sentence U s w
        (Some (if str_strip U l \<noteq> [] then str_strip U l else r)) = Inr s')
     (sentences st) (sentences (snd (customize_word U variation e w st)))"
proof -
  let ?st = "st\<lparr>stdout := stdout st @ [Customize_Prompt (Some r)], stdin := ls\<rparr>"
  have *: "list_all2 (\<lambda>s s'. replace_word_in_sentence U s w (Some c) = Inr s')
      (sentences st) (sentences (snd (replace_everywhere U w (Some c) ?st)))" for c
    using replace_everywhere_Some [of U w c ?st] by auto
  show ?thesis
  proof (cases "str_strip U l = []")
    case True
    with assms * [of r] show ?thesis
      by (simp add: customize_word_def and_then_emit read_line_def Let_def and_then_sentences)
  next
    case False
    with assms * [of "str_strip U l"] show ?thesis
      by (simp add: customize_word_def and_then_emit read_line_def Let_def and_then_sentences)
  qed
qed

lemma dispatch_a: "dispatch U edit_entry variation (Some e) w (ustr ''a'') st = accept_word U variation e w st"
  by (simp add: dispatch_def)

lemma dispatch_c: "dispatch U edit_entry variation (Some e) w (ustr ''c'') st = customize_word U variation e w st"
  by (simp add: dispatch_def ustr_def)

text \<open>
  C9. When the entry holds a string for the variation, the answers \<open>a\<close> and \<open>c\<close> replace
  the selected word in every sentence of the list: each sentence of the new list is
  \<open>replace_word_in_sentence\<close> of the sentence at the same place in the old one, for the
  dictionary form (\<open>a\<close>) or for the stripped answer, the dictionary form when the answer
  is blank (\<open>c\<close>). And \<open>replace_word_in_sentence\<close> replaces a whole-word occurrence \<open>m\<close>
  that matches the word case-insensitively by the replacement in the case of \<open>m\<close>
  (upper case for an upper-case \<open>m\<close>, capitalised for a title-case \<open>m\<close>, unchanged
  otherwise), the text before and after it being substituted in the same way. The
  last part is for a word all of whose case-insensitive matches are word characters.
\<close>

theorem accepted_word_replaced_everywhere:
  "(PI e variation = Some (Some r) \<longrightarrow>
      list_all2 (\<lambda>s s'. replace_word_in_sentence U s w (Some r) = Inr s')
        (sentences st)
        (sentences (snd (dispatch U edit_entry variation (Some e) w (ustr ''a'') st)))) \<and>
   (PI e variation = Some (Some r) \<and> stdin st = l # ls \<longrightarrow>
      list_all2
        (\<lambda>s s'. replace_word_in_sentence U s w
           (Some (if str_strip U l \<noteq> [] then str_strip U l else r)) = Inr s')
        (sentences st)
        (sentences (snd (dispatch U edit_entry variation (Some e) w (ustr ''c'') st)))) \<and>
   (w \<noteq> [] \<and> list_all2 (ci_match U) w m \<and> (\<forall>x \<in> set m. is_word U x) \<and>
      (pre = [] \<or> \<not> is_word U (last pre)) \<and> (post = [] \<or> \<not> is_word U (hd post)) \<longrightarrow>
      (\<exists>a c. re_sub U True w (replace U (Some r)) (Some (last m)) post = Inr c \<and>
         replace_word_in_sentence U (pre @ m @ post) w (Some r) =
           Inr (a @ (if str_isupper U m then str_upper U r
                     else if str_istitle U m then str_capitalize U r else r) @ c))) \<and>
   (matches_are_words U w \<and> w \<noteq> [] \<and> list_all2 (ci_match U) w m \<and>
      (pre = [] \<or> \<not> is_word U (last pre)) \<and> (post = [] \<or> \<not> is_word U (hd post)) \<longrightarrow>
      (\<exists>a c. replace_word_in_sentence U pre w (Some r) = Inr a \<and>
         re_sub U True w (replace U (Some r)) (Some (last m)) post = Inr c \<and>
         replace_word_in_sentence U (pre @ m @ post) w (Some r) =
           Inr (a @ (if str_isupper U m then str_upper U r
                     else if str_istitle U m then str_capitalize U r else r) @ c)))"
proof (intro conjI impI)
  assume "PI e variation = Some (Some r)"
  then show "list_all2 (\<lambda>s s'. replace_word_in_sentence U s w (Some r) = Inr s')
        (sentences st)
        (sentences (snd (dispatch U edit_entry variation (Some e) w (ustr ''a'') st)))"
    by (simp only: dispatch_a accept_word_sentences)
next
  assume "PI e variation = Some (Some r) \<and> stdin st = l # ls"
  then show "list_all2
        (\<lambda>s s'. replace_word_in_sentence U s w
           (Some (if str_strip U l \<noteq> [] then str_strip U l else r)) = Inr s')
        (sentences st)
        (sentences (snd (dispatch U edit_entry variation (Some e) w (ustr ''c'') st)))"
    by (simp only: dispatch_c customize_word_sentences)
next
  assume h: "w \<noteq> [] \<and> list_all2 (ci_match U) w m \<and> (\<forall>x \<in> set m. is_word U x) \<and>
      (pre = [] \<or> \<not> is_word U (last pre)) \<and> (post = [] \<or> \<not> is_word U (hd post))"
  let ?f = "replace U (Some r)"
  let ?b = "if str_isupper U m then str_upper U r
            else if str_istitle U m then str_capitalize U r else r"
  have "\<exists>c. re_sub U True w ?f (Some (last m)) post = Inr c"
    by (rule re_sub_total) (rule replace_total)
  then obtain c where c: "re_sub U True w ?f (Some (last m)) post = Inr c" ..
  obtain out where out: "replace_word_in_sentence U (pre @ m @ post) w (Some r) = Inr out"
    using replace_word_in_sentence_total by blast
  have b: "?f m = Inr ?b" by (simp add: replace_def)
  from h have "if pre = [] then \<not> is_word_opt U None else \<not> is_word U (last pre)"
    by (auto simp: is_word_opt_def)
  with h have "\<exists>a. re_sub U True w ?f None (pre @ m @ post) =
       then_append a (then_append (?f m) (re_sub U True w ?f (Some (last m)) post))"
    by (intro re_sub_reaches_occurrence) simp_all
  then obtain a where "re_sub U True w ?f None (pre @ m @ post) =
       then_append a (then_append (?f m) (re_sub U True w ?f (Some (last m)) post))" ..
  with out have "then_append a (Inr (?b @ c)) = Inr out"
    by (simp add: replace_word_in_sentence_def b c)
  then obtain a' where "out = a' @ ?b @ c"
    by (cases a) auto
  with out c show "\<exists>a c. re_sub U True w (replace U (Some r)) (Some (last m)) post = Inr c \<and>
         replace_word_in_sentence U (pre @ m @ post) w (Some r) =
           Inr (a @ (if str_isupper U m then str_upper U r
                     else if str_istitle U m then str_capitalize U r else r) @ c)"
    by blast
next
  assume h: "matches_are_words U w \<and> w \<noteq> [] \<and> list_all2 (ci_match U) w m \<and>
      (pre = [] \<or> \<not> is_word U (last pre)) \<and> (post = [] \<or> \<not> is_word U (hd post))"
  let ?f = "replace U (Some r)"
  obtain a where a: "replace_word_in_sentence U pre w (Some r) = Inr a"
    using replace_word_in_sentence_total by blast
  have "\<exists>c. re_sub U True w ?f (Some (last m)) post = Inr c"
    by (rule re_sub_total) (rule replace_total)
  then obtain c where c: "re_sub U True w ?f (Some (last m)) post = Inr c" ..
  from h have "if pre = [] then \<not> is_word_opt U None else \<not> is_word U (last pre)"
    by (auto simp: is_word_opt_def)
  with h have "re_sub U True w ?f None (pre @ m @ post) =
       then_append (re_sub U True w ?f None pre)
         (then_append (?f m) (re_sub U True w ?f (Some (last m)) post))"
    by (intro re_sub_occurrence) simp_all
  with a c have "replace_word_in_sentence U (pre @ m @ post) w (Some r) =
           Inr (a @ (if str_isupper U m then str_upper U r
                     else if str_istitle U m then str_capitalize U r else r) @ c)"
    by (simp add: replace_word_in_sentence_def replace_def)
  with a c show "\<exists>a c. replace_word_in_sentence U pre w (Some r) = Inr a \<and>
         re_sub U True w (replace U (Some r)) (Some (last m)) post = Inr c \<and>
         replace_word_in_sentence U (pre @ m @ post) w (Some r) =
           Inr (a @ (if str_isupper U m then str_upper U r
                     else if str_istitle U m then str_capitalize U r else r) @ c)"
    by blast
qed

lemma cat_matches_are_words: "matches_are_words ucd0 (ustr ''cat'')"
  by (auto simp: matches_are_words_def ustr_def ci_match_def ucd0_def is_word_def lower0_def
        upper0_def ascii_upper_def ascii_lower_def ascii_digit_def split: if_splits)

lemma accept_examples:
  "replace_word_in_sentence ucd0 (ustr ''cat one'') (ustr ''cat'') (Some (ustr ''kat'')) = Inr (ustr ''kat one'')"
  "replace_word_in_sentence ucd0 (ustr ''dog'') (ustr ''cat'') (Some (ustr ''kat'')) = Inr (ustr ''dog'')"
  "replace_word_in_sentence ucd0 (ustr ''my Cat!'') (ustr ''cat'') (Some (ustr ''kat'')) = Inr (ustr ''my Kat!'')"
  "replace_word_in_sentence ucd0 (ustr ''cat one'') (ustr ''cat'') (Some (ustr ''x'')) = Inr (ustr ''x one'')"
  "replace_word_in_sentence ucd0 (ustr ''dog'') (ustr ''cat'') (Some (ustr ''x'')) = Inr (ustr ''dog'')"
  "replace_word_in_sentence ucd0 (ustr ''my Cat!'') (ustr ''cat'') (Some (ustr ''x'')) = Inr (ustr ''my X!'')"
  "str_strip ucd0 (ustr ''x'') = ustr ''x''" "ustr ''x'' \<noteq> []"
  "list_all2 (ci_match ucd0) (ustr ''cat'') (ustr ''Cat'')"
  "ustr ''cat'' \<noteq> []"
  "\<not> is_word ucd0 (last (ustr ''my ''))" "\<not> is_word ucd0 (hd (ustr ''!''))"
  "\<forall>x \<in> set (ustr ''Cat''). is_word ucd0 x"
  "ustr ''my '' @ ustr ''Cat'' @ ustr ''!'' = ustr ''my Cat!''"
  "\<not> str_isupper ucd0 (ustr ''Cat'')" "str_istitle ucd0 (ustr ''Cat'')"
  "str_capitalize ucd0 (ustr ''kat'') = ustr ''Kat''"
  by code_simp+

lemma three_sentences_fields:
  "sentences three_sentences = [ustr ''cat one'', ustr ''dog'', ustr ''my Cat!'']"
  "stdin three_sentences = [ustr ''x'']"
  by (simp_all add: three_sentences_def)

theorem accepted_word_replaced_everywhere_witness:
  "sentences (snd (dispatch ucd0 no_editor L1
      (Some \<lparr>whole = ustr ''cat'', PI = [L1 \<mapsto> Some (ustr ''kat'')]\<rparr>) (ustr ''cat'') (ustr ''a'')
      three_sentences)) = [ustr ''kat one'', ustr ''dog'', ustr ''my Kat!''] \<and>
   sentences (snd (dispatch ucd0 no_editor L1
      (Some \<lparr>whole = ustr ''cat'', PI = [L1 \<mapsto> Some (ustr ''kat'')]\<rparr>) (ustr ''cat'') (ustr ''c'')
      three_sentences)) = [ustr ''x one'', ustr ''dog'', ustr ''my X!''] \<and>
   matches_are_words ucd0 (ustr ''cat'') \<and> list_all2 (ci_match ucd0) (ustr ''cat'') (ustr ''Cat'') \<and>
   (\<exists>a c. replace_word_in_sentence ucd0 (ustr ''my Cat!'') (ustr ''cat'') (Some (ustr ''kat'')) =
      Inr (a @ ustr ''Kat'' @ c))"
proof -
  note rule = accepted_word_replaced_everywhere [where U = ucd0 and variation = L1
      and e = "\<lparr>whole = ustr ''cat'', PI = [L1 \<mapsto> Some (ustr ''kat'')]\<rparr>" and r = "ustr ''kat''"
      and w = "ustr ''cat''" and st = three_sentences and edit_entry = no_editor
      and l = "ustr ''x''" and ls = "[]" and m = "ustr ''Cat''" and pre = "ustr ''my ''"
      and post = "ustr ''!''"]
  from rule cat_entry(2) three_sentences_fields
  have "list_all2 (\<lambda>s s'. replace_word_in_sentence ucd0 s (ustr ''cat'') (Some (ustr ''kat'')) = Inr s')
      [ustr ''cat one'', ustr ''dog'', ustr ''my Cat!'']
      (sentences (snd (dispatch ucd0 no_editor L1
        (Some \<lparr>whole = ustr ''cat'', PI = [L1 \<mapsto> Some (ustr ''kat'')]\<rparr>) (ustr ''cat'') (ustr ''a'')
        three_sentences)))"
    by simp
  then have 1: "sentences (snd (dispatch ucd0 no_editor L1
      (Some \<lparr>whole = ustr ''cat'', PI = [L1 \<mapsto> Some (ustr ''kat'')]\<rparr>) (ustr ''cat'') (ustr ''a'')
      three_sentences)) = [ustr ''kat one'', ustr ''dog'', ustr ''my Kat!'']"
    by (auto simp: list_all2_Cons1 accept_examples)
  from rule cat_entry(2) three_sentences_fields accept_examples(7,8)
  have "list_all2 (\<lambda>s s'. replace_word_in_sentence ucd0 s (ustr ''cat'') (Some (ustr ''x'')) = Inr s')
      [ustr ''cat one'', ustr ''dog'', ustr ''my Cat!'']
      (sentences (snd (dispatch ucd0 no_editor L1
        (Some \<lparr>whole = ustr ''cat'', PI = [L1 \<mapsto> Some (ustr ''kat'')]\<rparr>) (ustr ''cat'') (ustr ''c'')
        three_sentences)))"
    by simp
  then have 2: "sentences (snd (dispatch ucd0 no_editor L1
      (Some \<lparr>whole = ustr ''cat'', PI = [L1 \<mapsto> Some (ustr ''kat'')]\<rparr>) (ustr ''cat'') (ustr ''c'')
      three_sentences)) = [ustr ''x one'', ustr ''dog'', ustr ''my X!'']"
    by (auto simp: list_all2_Cons1 accept_examples)
  from rule accept_examples(9-13)
  have "\<exists>a c. replace_word_in_sentence ucd0 (ustr ''my '' @ ustr ''Cat'' @ ustr ''!'') (ustr ''cat'')
      (Some (ustr ''kat'')) =
      Inr (a @ (if str_isupper ucd0 (ustr ''Cat'') then str_upper ucd0 (ustr ''kat'')
                else if str_istitle ucd0 (ustr ''Cat'') then str_capitalize ucd0 (ustr ''kat'')
                else ustr ''kat'') @ c)"
    by blast
  then have 4: "\<exists>a c. replace_word_in_sentence ucd0 (ustr ''my Cat!'') (ustr ''cat'')
      (Some (ustr ''kat'')) = Inr (a @ ustr ''Kat'' @ c)"
    by (simp only: accept_examples if_True if_False)
  from rule cat_matches_are_words accept_examples(9-13)
  have "\<exists>a c. replace_word_in_sentence ucd0 (ustr ''my '' @ ustr ''Cat'' @ ustr ''!'') (ustr ''cat'')
      (Some (ustr ''kat'')) =
      Inr (a @ (if str_isupper ucd0 (ustr ''Cat'') then str_upper ucd0 (ustr ''kat'')
                else if str_istitle ucd0 (ustr ''Cat'') then str_capitalize ucd0 (ustr ''kat'')
                else ustr ''kat'') @ c)"
    by blast
  then have 3: "\<exists>a c. replace_word_in_sentence ucd0 (ustr ''my Cat!'') (ustr ''cat'')
      (Some (ustr ''kat'')) = Inr (a @ ustr ''Kat'' @ c)"
    by (simp only: accept_examples if_True if_False)
  from 1 2 3 4 cat_matches_are_words accept_examples(9) show ?thesis by blast
qed

section \<open>The case of a replacement\<close>

text \<open>In \<open>update_words_for_piss_variation\<close> a word that is not upper case and starts
  with an uppercase character gets the replacement with its first character
  uppercased and the rest as it is.\<close>

lemma replace_word_first_upper:
  "replacement_dict d v (str_lower U word) = Some r \<Longrightarrow> \<not> str_isupper U word \<Longrightarrow>
   word \<noteq> [] \<Longrightarrow> isupper U (hd word) \<Longrightarrow>
   replace_word U (replacement_dict d v) word = Inr (toupper_full U (hd r) @ tl r)"
  by (auto simp: replace_word_def split: list.splits dest: replacement_dict_nonempty)

text \<open>In \<open>replace_word_in_sentence\<close> a match that is not upper case gets
  \<open>str.capitalize\<close> of the replacement when it is title case, and the replacement
  as it is otherwise.\<close>

lemma replace_not_upper:
  "\<not> str_isupper U m \<Longrightarrow>
   replace U (Some r) m = Inr (if str_istitle U m then str_capitalize U r else r)"
  by (simp add: replace_def)

text \<open>
  C5 (every substitution step uppercases exactly the first character of the
  replacement and leaves the rest unchanged). \<open>update_words_for_piss_variation\<close> does,
  the two other steps call \<open>str.capitalize\<close>, which lowercases the rest: with the
  dictionary form \<open>kAt\<close> the token \<open>Cats\<close> becomes \<open>Kats\<close> and the match \<open>Cat\<close> becomes
  \<open>Kat\<close>, where the claim gives \<open>KAts\<close> and \<open>KAt\<close>. And \<open>replace_word_in_sentence\<close> tests
  \<open>str.istitle\<close>, not the first character: the match \<open>CaT\<close> gets the replacement \<open>kat\<close>
  unchanged.
\<close>

theorem capitalize_lowercases_rest:
  "update_words_for_piss_variation ucd0 (ustr ''Cat'') kAt_dictionary L1 = Inr (ustr ''KAt'') \<and>
   transform_words_with_s_suffix ucd0 (ustr ''Cats'') kAt_dictionary L1 = Inr (ustr ''Kats'') \<and>
   replace_word_in_sentence ucd0 (ustr ''Cat'') (ustr ''cat'') (Some (ustr ''kAt'')) =
     Inr (ustr ''Kat'') \<and>
   replace_word_in_sentence ucd0 (ustr ''CaT'') (ustr ''cat'') (Some (ustr ''kat'')) =
     Inr (ustr ''kat'')"
  by code_simp

section \<open>Exceptions of the pipeline\<close>

lemma update_words_total: "\<exists>out. update_words_for_piss_variation U s d v = Inr out"
proof -
  have "\<exists>out. map_result (update_token U (replacement_dict d v)) (findall_tokens U s) = Inr out"
    by (rule map_result_total) (simp add: update_token_total findall_tokens_nonempty)
  then show ?thesis
    by (auto simp: update_words_for_piss_variation_def join_tokens_def)
qed

text \<open>The stem of the word \<open>s\<close> is the empty string: \<open>base_word[0]\<close> is in range as
  long as the empty string is not a key of the dictionary.\<close>

lemma str_lower_Nil [simp]: "str_lower U [] = []"
  by (simp add: str_lower_def)

lemma transform_word_total:
  assumes "word \<noteq> []" "d [] = None"
  shows "\<exists>out. transform_word U d v word = Inr out"
proof (cases "butlast word")
  case Nil
  with assms have "d (str_lower U (butlast word)) = None" by simp
  with assms show ?thesis by (simp add: transform_word_def)
next
  case (Cons b bs)
  with assms show ?thesis
    by (simp add: transform_word_def split: option.splits)
qed

lemma transform_words_total:
  assumes "d [] = None"
  shows "\<exists>out. transform_words_with_s_suffix U s d v = Inr out"
proof -
  have "\<exists>out. map_result (transform_token U d v) (findall_tokens U s) = Inr out"
    by (rule map_result_total)
       (simp add: transform_token_def transform_word_total findall_tokens_nonempty assms)
  then show ?thesis
    by (auto simp: transform_words_with_s_suffix_def join_tokens_def)
qed

text \<open>
  C10 (the three functions of the pipeline never raise). The two functions on tokens
  do not, for a dictionary without the empty key; \<open>perform_preliminar_replacements\<close>
  does. Under \<open>re.IGNORECASE\<close> the key \<open>this\<close> matches \<open>thi\<close> followed by the long s
  U+017F, whose lowercase form is itself: the callback looks \<open>word.lower()\<close> up in the
  fixed mapping and raises KeyError, and so does \<open>transcribe\<close>.
\<close>

theorem long_s_raises_KeyError:
  "perform_preliminar_replacements ucd0 (ustr ''thi'' @ [383]) = Inl KeyError \<and>
   transcribe ucd0 Map.empty (ustr ''thi'' @ [383]) L1 = Inl KeyError"
  by code_simp

end
